theory Spec2Isabelle
  imports Main "HOL-Library.AList"
begin

section \<open>Values, failures and the sentinel\<close>

text \<open>
  Python values as far as \<^verbatim>\<open>simple_di/__init__.py\<close> looks at them. The module tests
  values in three ways only: \<^verbatim>\<open>isinstance(v, _SentinelClass)\<close>, \<^verbatim>\<open>v is None\<close> and
  \<^verbatim>\<open>isinstance(v, Provider)\<close> (resp. \<^verbatim>\<open>dataclasses.is_dataclass(v)\<close>). Objects with
  mutable state live in a store and are referred to by address (\<open>VRef\<close>); \<open>VMissing\<close>
  is the object \<^verbatim>\<open>dataclasses.MISSING\<close>. An instance of
  \<^verbatim>\<open>_SentinelClass\<close> has no attributes, so it is represented by its identity alone:
  \<open>VSentinel 0\<close> is the module-level object \<^verbatim>\<open>sentinel = _SentinelClass()\<close>, and
  \<open>VSentinel n\<close> for another \<open>n\<close> is a further instance of the class (made by
  \<^verbatim>\<open>type(sentinel)()\<close>, by copying, or by unpickling a provider's state).
\<close>

type_synonym addr = nat

datatype val =
    VNone
  | VInt int
  | VStr string
  | VSentinel nat
  | VRef addr
  | VTuple "val list"
  | VDict "(string \<times> val) list"
  | VMissing

datatype error =
    NotImplementedError
  | AttributeError string
  | KeyError string
  | TypeError string
  | ValueError string
  | RecursionError
  | Raised string

definition sentinel :: val where
  "sentinel = VSentinel 0"

definition not_passed :: val where
  "not_passed = sentinel"

definition skip :: val where
  "skip = sentinel"

text \<open>\<^verbatim>\<open>isinstance(value, _SentinelClass)\<close>: a test on the class, not on the identity.\<close>

fun isinstance_SentinelClass :: "val \<Rightarrow> bool" where
  "isinstance_SentinelClass (VSentinel n) = True"
| "isinstance_SentinelClass v = False"

section \<open>State-field accretion: \<^verbatim>\<open>ProviderMeta.__new__\<close>\<close>

text \<open>
  \<^verbatim>\<open>ProviderMeta.__new__(mcs, class_name, bases, attrs, state_fields=())\<close> collects, in a
  Python \<^verbatim>\<open>set\<close>, the keyword argument \<^verbatim>\<open>state_fields\<close>, then
  \<^verbatim>\<open>getattr(base, "STATE_FIELDS", ())\<close> of every base, then the class body's own
  \<^verbatim>\<open>STATE_FIELDS\<close> entry (popped from \<^verbatim>\<open>attrs\<close>, \<^verbatim>\<open>()\<close> when absent), and stores
  \<^verbatim>\<open>tuple(all_state_fields)\<close> as the new class's \<^verbatim>\<open>STATE_FIELDS\<close>. The order of a tuple
  made from a set is unspecified in Python; the model takes the order \<open>remdups\<close> gives, and
  no statement below depends on the order.
\<close>

definition ProviderMeta_new :: "string list \<Rightarrow> string list list \<Rightarrow> string list \<Rightarrow> string list" where
  "ProviderMeta_new state_fields bases_state_fields attrs_state_fields =
     remdups (state_fields @ concat bases_state_fields @ attrs_state_fields)"

text \<open>
  A class declaration. \<open>PlainClass sf\<close> is a base that was not built by the metaclass
  (\<^verbatim>\<open>Generic[VT]\<close>, a mix-in); \<open>sf\<close> is what \<^verbatim>\<open>getattr(base, "STATE_FIELDS", ())\<close>
  finds on it. \<open>ProviderClass name bases attrs_sf kw_sf\<close> is a class statement executed
  under \<^verbatim>\<open>ProviderMeta\<close>, with the body's \<^verbatim>\<open>STATE_FIELDS\<close> entry \<open>attrs_sf\<close> and the keyword
  argument \<^verbatim>\<open>state_fields=kw_sf\<close>.
\<close>

datatype pyclass =
    PlainClass "string list"
  | ProviderClass string "pyclass list" "string list" "string list"

fun STATE_FIELDS_of :: "pyclass \<Rightarrow> string list" where
  "STATE_FIELDS_of (PlainClass sf) = sf"
| "STATE_FIELDS_of (ProviderClass class_name bases attrs_sf kw_sf) =
     ProviderMeta_new kw_sf (map STATE_FIELDS_of bases) attrs_sf"

fun bases_of :: "pyclass \<Rightarrow> pyclass list" where
  "bases_of (PlainClass sf) = []"
| "bases_of (ProviderClass class_name bases attrs_sf kw_sf) = bases"

text \<open>The proper ancestors of a class: its bases and their ancestors.\<close>

fun ancestors :: "pyclass \<Rightarrow> pyclass list" where
  "ancestors (PlainClass sf) = []"
| "ancestors (ProviderClass class_name bases attrs_sf kw_sf) =
     bases @ concat (map ancestors bases)"

text \<open>
  \<^verbatim>\<open>class Provider(Generic[VT], metaclass=ProviderMeta): STATE_FIELDS = ("_override",)\<close>
\<close>

definition Provider_class :: pyclass where
  "Provider_class = ProviderClass ''Provider'' [PlainClass []] [''_override''] []"

section \<open>Provider\<close>

text \<open>
  A Provider instance: its class's \<^verbatim>\<open>STATE_FIELDS\<close>, its class's \<^verbatim>\<open>_provide\<close> method and
  its attribute dictionary. \<^verbatim>\<open>_provide(self)\<close> is supplied by the concrete subclass; it
  is a parameter of the model, a computation over the instance's attributes that may
  fail. The base class's own \<^verbatim>\<open>_provide\<close> is \<open>base_provide\<close>.
\<close>

type_synonym attrs = "string \<rightharpoonup> val"

record provider =
  STATE_FIELDS :: "string list"
  provide :: "attrs \<Rightarrow> error + val"
  attrs :: attrs

definition base_provide :: "attrs \<Rightarrow> error + val" where
  "base_provide d = Inl NotImplementedError"

text \<open>\<^verbatim>\<open>Provider.__init__\<close> on a new instance of a class: \<^verbatim>\<open>self._override = sentinel\<close>.\<close>

definition Provider_init :: "pyclass \<Rightarrow> (attrs \<Rightarrow> error + val) \<Rightarrow> provider" where
  "Provider_init c prov =
     \<lparr>STATE_FIELDS = STATE_FIELDS_of c, provide = prov, attrs = [''_override'' \<mapsto> sentinel]\<rparr>"

text \<open>Reading an attribute that the instance does not have raises \<^verbatim>\<open>AttributeError\<close>.\<close>

definition getattr :: "provider \<Rightarrow> string \<Rightarrow> error + val" where
  "getattr self f = (case attrs self f of None \<Rightarrow> Inl (AttributeError f) | Some v \<Rightarrow> Inr v)"

definition setattr :: "provider \<Rightarrow> string \<Rightarrow> val \<Rightarrow> provider" where
  "setattr self f v = self\<lparr>attrs := (attrs self)(f \<mapsto> v)\<rparr>"

definition Provider_set :: "provider \<Rightarrow> val \<Rightarrow> provider" where
  "Provider_set self v =
     (if isinstance_SentinelClass v then self else setattr self ''_override'' v)"

definition Provider_get :: "provider \<Rightarrow> error + val" where
  "Provider_get self =
     (case getattr self ''_override'' of
        Inl e \<Rightarrow> Inl e
      | Inr ov \<Rightarrow> if \<not> isinstance_SentinelClass ov then Inr ov else provide self (attrs self))"

definition Provider_reset :: "provider \<Rightarrow> provider" where
  "Provider_reset self = setattr self ''_override'' sentinel"

subsection \<open>\<^verbatim>\<open>patch\<close>: a generator under \<^verbatim>\<open>contextlib.contextmanager\<close>\<close>

text \<open>
  The generator function \<^verbatim>\<open>patch\<close> has two \<^verbatim>\<open>yield\<close> statements. A suspended generator
  is the \<^verbatim>\<open>yield\<close> it is parked at together with its local variables: \<open>AtFirstYield\<close>
  is the \<^verbatim>\<open>yield\<close> of the sentinel branch (followed by \<^verbatim>\<open>return\<close>), \<open>AtSecondYield original\<close>
  the \<^verbatim>\<open>yield\<close> after \<^verbatim>\<open>self._override = value\<close>, with the local \<^verbatim>\<open>original\<close>.

  \<^verbatim>\<open>contextmanager\<close> drives the generator as follows. \<^verbatim>\<open>__enter__\<close> runs it to its first
  \<^verbatim>\<open>yield\<close> (\<open>patch_enter\<close>). When the body of the \<^verbatim>\<open>with\<close> statement ends normally,
  \<^verbatim>\<open>__exit__\<close> resumes the generator with \<^verbatim>\<open>next\<close>, which runs the statements after the
  \<^verbatim>\<open>yield\<close> (\<open>patch_resume\<close>). When the body raises, \<^verbatim>\<open>__exit__\<close> calls
  \<^verbatim>\<open>gen.throw(exc)\<close>: the exception is raised inside the generator at the \<^verbatim>\<open>yield\<close>
  expression. Neither \<^verbatim>\<open>yield\<close> of \<^verbatim>\<open>patch\<close> stands in a \<^verbatim>\<open>try\<close> statement, so the
  exception leaves the generator at once, no statement after the \<^verbatim>\<open>yield\<close> runs
  (\<open>patch_throw\<close>), and the exception propagates out of the \<^verbatim>\<open>with\<close> statement.
\<close>

datatype patch_frame = AtFirstYield | AtSecondYield val

definition patch_enter :: "provider \<Rightarrow> val \<Rightarrow> error + (patch_frame \<times> provider)" where
  "patch_enter self v =
     (if isinstance_SentinelClass v then Inr (AtFirstYield, self)
      else case getattr self ''_override'' of
             Inl e \<Rightarrow> Inl e
           | Inr original \<Rightarrow> Inr (AtSecondYield original, setattr self ''_override'' v))"

fun patch_resume :: "patch_frame \<Rightarrow> provider \<Rightarrow> provider" where
  "patch_resume AtFirstYield self = self"
| "patch_resume (AtSecondYield original) self = setattr self ''_override'' original"

fun patch_throw :: "patch_frame \<Rightarrow> provider \<Rightarrow> provider" where
  "patch_throw fr self = self"

text \<open>
  \<^verbatim>\<open>with self.patch(value): body\<close>. The body is any code; what matters of it here is
  what it does to the provider and whether it ends normally (\<open>Inr\<close>) or raises (\<open>Inl\<close>).
\<close>

definition with_patch ::
  "provider \<Rightarrow> val \<Rightarrow> (provider \<Rightarrow> (error + 'a) \<times> provider) \<Rightarrow> (error + 'a) \<times> provider" where
  "with_patch self v body =
     (case patch_enter self v of
        Inl e \<Rightarrow> (Inl e, self)
      | Inr (fr, self1) \<Rightarrow>
          (case body self1 of
             (Inr r, self2) \<Rightarrow> (Inr r, patch_resume fr self2)
           | (Inl e, self2) \<Rightarrow> (Inl e, patch_throw fr self2)))"

subsection \<open>State export and import\<close>

text \<open>
  \<^verbatim>\<open>__getstate__\<close> builds \<^verbatim>\<open>{f: getattr(self, f) for f in self.STATE_FIELDS}\<close>, field by
  field; a missing attribute raises. \<^verbatim>\<open>__setstate__\<close> runs
  \<^verbatim>\<open>setattr(self, i, state[i])\<close> for each field in turn; a key missing from \<^verbatim>\<open>state\<close>
  raises \<^verbatim>\<open>KeyError\<close> and leaves the fields already assigned as they are.
\<close>

fun getstate_loop :: "provider \<Rightarrow> string list \<Rightarrow> attrs \<Rightarrow> error + attrs" where
  "getstate_loop self [] d = Inr d"
| "getstate_loop self (f # fs) d =
     (case getattr self f of
        Inl e \<Rightarrow> Inl e
      | Inr v \<Rightarrow> getstate_loop self fs (d(f \<mapsto> v)))"

definition Provider_getstate :: "provider \<Rightarrow> error + attrs" where
  "Provider_getstate self = getstate_loop self (STATE_FIELDS self) Map.empty"

fun setstate_loop :: "provider \<Rightarrow> string list \<Rightarrow> attrs \<Rightarrow> error option \<times> provider" where
  "setstate_loop self [] state = (None, self)"
| "setstate_loop self (i # fs) state =
     (case state i of
        None \<Rightarrow> (Some (KeyError i), self)
      | Some v \<Rightarrow> setstate_loop (setattr self i v) fs state)"

definition Provider_setstate :: "provider \<Rightarrow> attrs \<Rightarrow> error option \<times> provider" where
  "Provider_setstate self state = setstate_loop self (STATE_FIELDS self) state"

section \<open>The object store and \<^verbatim>\<open>sync_container\<close>\<close>

text \<open>
  Objects in the store. A container is an instance of a frozen dataclass: \<open>DataObj fs d\<close>
  carries what \<^verbatim>\<open>dataclasses.fields\<close> reports for its class, a list of field names with
  \<^verbatim>\<open>field.default\<close> (\<open>VMissing\<close> where the field declares none), and the instance's attribute
  dictionary \<open>d\<close>. A dataclass leaves every default as a class attribute, so reading an
  attribute falls back from the instance to the default; the dataclass type itself is the
  case of an empty instance dictionary. \<open>OtherObj\<close> is any other object with attributes.
\<close>

type_synonym field = "string \<times> val"

datatype obj =
    ProviderObj provider
  | DataObj "field list" attrs
  | OtherObj attrs

type_synonym heap = "addr \<rightharpoonup> obj"

text \<open>\<^verbatim>\<open>isinstance(v, Provider)\<close>\<close>

fun isinstance_Provider :: "heap \<Rightarrow> val \<Rightarrow> bool" where
  "isinstance_Provider h (VRef a) =
     (case h a of Some (ProviderObj p) \<Rightarrow> True | _ \<Rightarrow> False)"
| "isinstance_Provider h v = False"

text \<open>\<^verbatim>\<open>dataclasses.is_dataclass(v)\<close>\<close>

fun is_dataclass :: "heap \<Rightarrow> val \<Rightarrow> bool" where
  "is_dataclass h (VRef a) =
     (case h a of Some (DataObj fs d) \<Rightarrow> True | _ \<Rightarrow> False)"
| "is_dataclass h v = False"

text \<open>\<^verbatim>\<open>dataclasses.fields(v)\<close> raises \<^verbatim>\<open>TypeError\<close> unless \<open>v\<close> is a dataclass.\<close>

fun dataclasses_fields :: "heap \<Rightarrow> val \<Rightarrow> error + field list" where
  "dataclasses_fields h (VRef a) =
     (case h a of
        Some (DataObj fs d) \<Rightarrow> Inr fs
      | _ \<Rightarrow> Inl (TypeError ''must be called with a dataclass type or instance''))"
| "dataclasses_fields h v = Inl (TypeError ''must be called with a dataclass type or instance'')"

text \<open>\<^verbatim>\<open>getattr(o, name, None)\<close>\<close>

fun getattr_or_None :: "heap \<Rightarrow> val \<Rightarrow> string \<Rightarrow> val" where
  "getattr_or_None h (VRef a) name =
     (case h a of
        Some (ProviderObj p) \<Rightarrow> (case attrs p name of Some v \<Rightarrow> v | None \<Rightarrow> VNone)
      | Some (DataObj fs d) \<Rightarrow>
          (case d name of
             Some v \<Rightarrow> v
           | None \<Rightarrow>
               (case map_of fs name of
                  Some v \<Rightarrow> if v = VMissing then VNone else v
                | None \<Rightarrow> VNone))
      | Some (OtherObj d) \<Rightarrow> (case d name of Some v \<Rightarrow> v | None \<Rightarrow> VNone)
      | None \<Rightarrow> VNone)"
| "getattr_or_None h v name = VNone"

text \<open>
  \<^verbatim>\<open>target.__getstate__()\<close> on whatever \<^verbatim>\<open>getattr(from_, field.name, None)\<close> returned.
  For a Provider it is the method of this module. Every other object has
  \<^verbatim>\<open>object.__getstate__\<close> (Python 3.11 and later), which returns the instance dictionary
  when the object has a non-empty one and \<^verbatim>\<open>None\<close> otherwise. The result is \<open>Some d\<close> for
  a dictionary \<open>d\<close> and \<open>None\<close> for \<^verbatim>\<open>None\<close>.
\<close>

fun call_getstate :: "heap \<Rightarrow> val \<Rightarrow> error + attrs option" where
  "call_getstate h (VRef a) =
     (case h a of
        Some (ProviderObj p) \<Rightarrow>
          (case Provider_getstate p of Inl e \<Rightarrow> Inl e | Inr d \<Rightarrow> Inr (Some d))
      | Some (DataObj fs d) \<Rightarrow> Inr (if d = Map.empty then None else Some d)
      | Some (OtherObj d) \<Rightarrow> Inr (if d = Map.empty then None else Some d)
      | None \<Rightarrow> Inr None)"
| "call_getstate h v = Inr None"

text \<open>
  \<^verbatim>\<open>__setstate__(state)\<close> with whatever \<^verbatim>\<open>__getstate__\<close> returned. With a dictionary it
  is \<open>Provider_setstate\<close>. With \<^verbatim>\<open>None\<close> the first \<^verbatim>\<open>state[i]\<close> of the loop raises
  \<^verbatim>\<open>TypeError\<close> before anything is assigned; a Provider without state fields never
  evaluates it.
\<close>

definition setstate_None :: "provider \<Rightarrow> error option \<times> provider" where
  "setstate_None self =
     (case STATE_FIELDS self of
        [] \<Rightarrow> (None, self)
      | i # fs \<Rightarrow> (Some (TypeError ''NoneType object is not subscriptable''), self))"

definition Provider_setstate_arg :: "provider \<Rightarrow> attrs option \<Rightarrow> error option \<times> provider" where
  "Provider_setstate_arg self state =
     (case state of Some d \<Rightarrow> Provider_setstate self d | None \<Rightarrow> setstate_None self)"

text \<open>
  \<^verbatim>\<open>src.__setstate__(state)\<close>: the Provider that \<open>src\<close> refers to is updated in place,
  so every reference to it sees the new attributes.
\<close>

fun call_setstate :: "heap \<Rightarrow> val \<Rightarrow> attrs option \<Rightarrow> error option \<times> heap" where
  "call_setstate h (VRef a) state =
     (case h a of
        Some (ProviderObj p) \<Rightarrow>
          (case Provider_setstate_arg p state of (r, p') \<Rightarrow> (r, h(a \<mapsto> ProviderObj p')))
      | _ \<Rightarrow> (Some (AttributeError ''__setstate__''), h))"
| "call_setstate h v state = (Some (AttributeError ''__setstate__''), h)"

text \<open>
  \<^verbatim>\<open>sync_container(from_, to_)\<close>. The first argument of the model bounds the depth of
  the recursion, as the interpreter's recursion limit does; running out of it is
  \<^verbatim>\<open>RecursionError\<close>. \<open>sync_fields\<close> is the \<^verbatim>\<open>for field in dataclasses.fields(to_)\<close>
  loop over the fields still to be visited. The result is the exception raised, if any,
  and the store as the call leaves it.
\<close>

fun sync_container :: "nat \<Rightarrow> val \<Rightarrow> val \<Rightarrow> heap \<Rightarrow> error option \<times> heap"
  and sync_fields :: "nat \<Rightarrow> val \<Rightarrow> field list \<Rightarrow> heap \<Rightarrow> error option \<times> heap" where
  "sync_container 0 from_c to_c h = (Some RecursionError, h)"
| "sync_container (Suc n) from_c to_c h =
     (case dataclasses_fields h to_c of
        Inl e \<Rightarrow> (Some e, h)
      | Inr fs \<Rightarrow> sync_fields n from_c fs h)"
| "sync_fields n from_c [] h = (None, h)"
| "sync_fields n from_c ((name, src) # fs) h =
     (let target = getattr_or_None h from_c name in
      if target = VNone then sync_fields n from_c fs h
      else if isinstance_Provider h src then
        (case call_getstate h target of
           Inl e \<Rightarrow> (Some e, h)
         | Inr state \<Rightarrow>
             (case call_setstate h src state of
                (Some e, h') \<Rightarrow> (Some e, h')
              | (None, h') \<Rightarrow> sync_fields n from_c fs h'))
      else if is_dataclass h src then
        (case sync_container n src target h of
           (Some e, h') \<Rightarrow> (Some e, h')
         | (None, h') \<Rightarrow> sync_fields n from_c fs h')
      else sync_fields n from_c fs h)"

section \<open>The injection wrapper\<close>

subsection \<open>Signatures and \<^verbatim>\<open>inspect.Signature.bind_partial\<close>\<close>

text \<open>
  \<^verbatim>\<open>_inject\<close> relies on the standard library: \<^verbatim>\<open>inspect.signature\<close>,
  \<^verbatim>\<open>Signature.bind_partial\<close>, \<^verbatim>\<open>BoundArguments.apply_defaults\<close> and the properties
  \<^verbatim>\<open>BoundArguments.args\<close> and \<^verbatim>\<open>BoundArguments.kwargs\<close>. They are modelled after
  CPython's \<^verbatim>\<open>inspect.py\<close> for parameters of the kinds below (positional-only
  parameters, whose binding rules differ between CPython releases, are left out). A
  parameter's default is \<open>None\<close> for \<^verbatim>\<open>Parameter.empty\<close>. Keyword arguments and the
  \<^verbatim>\<open>arguments\<close> of a \<^verbatim>\<open>BoundArguments\<close> are insertion-ordered dictionaries:
  association lists, where \<open>AList.update k v d\<close> is \<^verbatim>\<open>d[k] = v\<close>, \<open>AList.delete k d\<close> is
  \<^verbatim>\<open>d.pop(k)\<close> and \<open>dict_update d kvs\<close> is \<^verbatim>\<open>d.update(kvs)\<close>.
\<close>

fun dict_update :: "(string \<times> val) list \<Rightarrow> (string \<times> val) list \<Rightarrow> (string \<times> val) list" where
  "dict_update d [] = d"
| "dict_update d ((k, v) # kvs) = dict_update (AList.update k v d) kvs"

datatype kind = POSITIONAL_OR_KEYWORD | VAR_POSITIONAL | KEYWORD_ONLY | VAR_KEYWORD

record param =
  pname :: string
  pkind :: kind
  pdefault :: "val option"

type_synonym kwargs = "(string \<times> val) list"

text \<open>
  The first loop of \<^verbatim>\<open>Signature._bind\<close>: positional arguments against the parameters in
  order. It returns the \<^verbatim>\<open>arguments\<close> bound so far and the parameters the second loop
  still has to visit (\<^verbatim>\<open>itertools.chain(parameters_ex, parameters)\<close>).
\<close>

fun bind_positional ::
  "val list \<Rightarrow> param list \<Rightarrow> kwargs \<Rightarrow> kwargs \<Rightarrow> error + (kwargs \<times> param list)" where
  "bind_positional [] [] kw arguments = Inr (arguments, [])"
| "bind_positional [] (p # ps) kw arguments =
     (if pkind p = VAR_POSITIONAL then Inr (arguments, ps) else Inr (arguments, p # ps))"
| "bind_positional (a # as) [] kw arguments = Inl (TypeError ''too many positional arguments'')"
| "bind_positional (a # as) (p # ps) kw arguments =
     (if pkind p = VAR_KEYWORD \<or> pkind p = KEYWORD_ONLY
        then Inl (TypeError ''too many positional arguments'')
      else if pkind p = VAR_POSITIONAL
        then Inr (AList.update (pname p) (VTuple (a # as)) arguments, ps)
      else if pname p \<in> fst ` set kw
        then Inl (TypeError ''multiple values for argument'')
      else bind_positional as ps kw (AList.update (pname p) a arguments))"

text \<open>
  The second loop: keyword arguments against the remaining parameters; \<open>kwargs_param\<close>
  remembers a \<^verbatim>\<open>**kwargs\<close> parameter. With \<^verbatim>\<open>partial=True\<close> a parameter without a value
  is not an error. What is left of \<open>kw\<close> at the end goes to the \<^verbatim>\<open>**kwargs\<close> parameter
  or is an unexpected keyword argument.
\<close>

fun bind_keywords ::
  "param list \<Rightarrow> kwargs \<Rightarrow> kwargs \<Rightarrow> param option \<Rightarrow> error + kwargs" where
  "bind_keywords [] kw arguments kwargs_param =
     (if kw = [] then Inr arguments
      else case kwargs_param of
             Some p \<Rightarrow> Inr (AList.update (pname p) (VDict kw) arguments)
           | None \<Rightarrow> Inl (TypeError ''got an unexpected keyword argument''))"
| "bind_keywords (p # ps) kw arguments kwargs_param =
     (if pkind p = VAR_KEYWORD then bind_keywords ps kw arguments (Some p)
      else if pkind p = VAR_POSITIONAL then bind_keywords ps kw arguments kwargs_param
      else case map_of kw (pname p) of
             None \<Rightarrow> bind_keywords ps kw arguments kwargs_param
           | Some v \<Rightarrow>
               bind_keywords ps (AList.delete (pname p) kw)
                 (AList.update (pname p) v arguments) kwargs_param)"

definition bind_partial :: "param list \<Rightarrow> val list \<Rightarrow> kwargs \<Rightarrow> error + kwargs" where
  "bind_partial sig args kw =
     (case bind_positional args sig kw [] of
        Inl e \<Rightarrow> Inl e
      | Inr (arguments, rest) \<Rightarrow> bind_keywords rest kw arguments None)"

text \<open>
  \<^verbatim>\<open>BoundArguments.apply_defaults\<close>: in the order of the parameters, a bound parameter
  keeps its value, an unbound one takes its default, \<^verbatim>\<open>()\<close> for \<^verbatim>\<open>*args\<close>, \<^verbatim>\<open>{}\<close> for
  \<^verbatim>\<open>**kwargs\<close>, and stays unbound if it has no default.
\<close>

fun new_arguments :: "param list \<Rightarrow> kwargs \<Rightarrow> kwargs" where
  "new_arguments [] arguments = []"
| "new_arguments (p # ps) arguments =
     (case map_of arguments (pname p) of
        Some v \<Rightarrow> (pname p, v) # new_arguments ps arguments
      | None \<Rightarrow>
          (case pdefault p of
             Some d \<Rightarrow> (pname p, d) # new_arguments ps arguments
           | None \<Rightarrow>
               if pkind p = VAR_POSITIONAL then (pname p, VTuple []) # new_arguments ps arguments
               else if pkind p = VAR_KEYWORD then (pname p, VDict []) # new_arguments ps arguments
               else new_arguments ps arguments))"

definition apply_defaults :: "param list \<Rightarrow> kwargs \<Rightarrow> kwargs" where
  "apply_defaults sig arguments = dict_update [] (new_arguments sig arguments)"

text \<open>
  The value bound to a \<^verbatim>\<open>*args\<close> parameter is always a tuple and the one bound to a
  \<^verbatim>\<open>**kwargs\<close> parameter always a dictionary (\<open>bind_positional\<close>, \<open>bind_keywords\<close> and
  \<open>new_arguments\<close> bind nothing else there); \<open>tuple_items\<close> and \<open>dict_items\<close> unpack them.
\<close>

fun tuple_items :: "val \<Rightarrow> val list" where
  "tuple_items (VTuple vs) = vs"
| "tuple_items v = []"

fun dict_items :: "val \<Rightarrow> kwargs" where
  "dict_items (VDict kvs) = kvs"
| "dict_items v = []"

text \<open>\<^verbatim>\<open>BoundArguments.args\<close>\<close>

fun bound_args :: "param list \<Rightarrow> kwargs \<Rightarrow> val list" where
  "bound_args [] arguments = []"
| "bound_args (p # ps) arguments =
     (if pkind p = VAR_KEYWORD \<or> pkind p = KEYWORD_ONLY then []
      else case map_of arguments (pname p) of
             None \<Rightarrow> []
           | Some arg \<Rightarrow>
               if pkind p = VAR_POSITIONAL then tuple_items arg @ bound_args ps arguments
               else arg # bound_args ps arguments)"

text \<open>\<^verbatim>\<open>BoundArguments.kwargs\<close>, with its flag \<^verbatim>\<open>kwargs_started\<close>\<close>

fun bound_kwargs_loop :: "param list \<Rightarrow> kwargs \<Rightarrow> bool \<Rightarrow> kwargs \<Rightarrow> kwargs" where
  "bound_kwargs_loop [] arguments kwargs_started kw = kw"
| "bound_kwargs_loop (p # ps) arguments kwargs_started kw =
     (if \<not> kwargs_started \<and> pkind p \<noteq> VAR_KEYWORD \<and> pkind p \<noteq> KEYWORD_ONLY
        then bound_kwargs_loop ps arguments (map_of arguments (pname p) = None) kw
      else case map_of arguments (pname p) of
             None \<Rightarrow> bound_kwargs_loop ps arguments True kw
           | Some arg \<Rightarrow>
               if pkind p = VAR_KEYWORD
                 then bound_kwargs_loop ps arguments True (dict_update kw (dict_items arg))
               else bound_kwargs_loop ps arguments True (AList.update (pname p) arg kw))"

definition bound_kwargs :: "param list \<Rightarrow> kwargs \<Rightarrow> kwargs" where
  "bound_kwargs sig arguments = bound_kwargs_loop sig arguments False []"

subsection \<open>\<^verbatim>\<open>_inject_args\<close>, \<^verbatim>\<open>_inject_kwargs\<close>, \<^verbatim>\<open>_inject\<close> and \<^verbatim>\<open>inject\<close>\<close>

text \<open>\<^verbatim>\<open>a.get() if isinstance(a, Provider) else a\<close>\<close>

fun resolve :: "heap \<Rightarrow> val \<Rightarrow> error + val" where
  "resolve h (VRef a) =
     (case h a of Some (ProviderObj p) \<Rightarrow> Provider_get p | _ \<Rightarrow> Inr (VRef a))"
| "resolve h v = Inr v"

text \<open>The generator inside \<^verbatim>\<open>tuple(...)\<close> stops at the first \<^verbatim>\<open>get()\<close> that raises.\<close>

fun inject_args :: "heap \<Rightarrow> val list \<Rightarrow> error + val list" where
  "inject_args h [] = Inr []"
| "inject_args h (a # as) =
     (case resolve h a of
        Inl e \<Rightarrow> Inl e
      | Inr v \<Rightarrow> (case inject_args h as of Inl e \<Rightarrow> Inl e | Inr vs \<Rightarrow> Inr (v # vs)))"

fun inject_kwargs :: "heap \<Rightarrow> kwargs \<Rightarrow> error + kwargs" where
  "inject_kwargs h [] = Inr []"
| "inject_kwargs h ((k, a) # kw) =
     (case resolve h a of
        Inl e \<Rightarrow> Inl e
      | Inr v \<Rightarrow> (case inject_kwargs h kw of Inl e \<Rightarrow> Inl e | Inr kvs \<Rightarrow> Inr ((k, v) # kvs)))"

text \<open>
  A Python callable: what a call does with positional arguments, keyword arguments and
  the store; what \<^verbatim>\<open>inspect.signature\<close> reports for it (\<open>None\<close> when it raises
  \<^verbatim>\<open>ValueError\<close>, as for some built-ins); and \<^verbatim>\<open>getattr(func, "_is_injected", False)\<close>.
\<close>

type_synonym pyfun = "val list \<Rightarrow> kwargs \<Rightarrow> heap \<Rightarrow> (error + val) \<times> heap"

record callable =
  call :: pyfun
  signature :: "param list option"
  is_injected :: bool

text \<open>The two filters of the wrapper, on positional and on keyword arguments.\<close>

definition filtered_args :: "bool \<Rightarrow> val list \<Rightarrow> val list" where
  "filtered_args squeeze_none args =
     (if \<not> squeeze_none then filter (\<lambda>a. \<not> isinstance_SentinelClass a) args
      else filter (\<lambda>a. a \<noteq> VNone) args)"

definition filtered_kwargs :: "bool \<Rightarrow> kwargs \<Rightarrow> kwargs" where
  "filtered_kwargs squeeze_none kw =
     (if \<not> squeeze_none then filter (\<lambda>(k, v). \<not> isinstance_SentinelClass v) kw
      else filter (\<lambda>(k, v). v \<noteq> VNone) kw)"

text \<open>
  The inner function \<^verbatim>\<open>_\<close> of \<^verbatim>\<open>_inject\<close>, closed over \<^verbatim>\<open>squeeze_none\<close>, \<^verbatim>\<open>sig\<close> and
  \<^verbatim>\<open>func\<close>. A failure of the binding or of a \<^verbatim>\<open>get()\<close> propagates; in this model
  \<^verbatim>\<open>get()\<close> does not change the store.
\<close>

definition wrapper :: "bool \<Rightarrow> param list \<Rightarrow> pyfun \<Rightarrow> pyfun" where
  "wrapper squeeze_none sig func args kw h =
     (case bind_partial sig (filtered_args squeeze_none args) (filtered_kwargs squeeze_none kw) of
        Inl e \<Rightarrow> (Inl e, h)
      | Inr arguments \<Rightarrow>
          (let bind = apply_defaults sig arguments in
           case inject_args h (bound_args sig bind) of
             Inl e \<Rightarrow> (Inl e, h)
           | Inr vs \<Rightarrow>
               (case inject_kwargs h (bound_kwargs sig bind) of
                  Inl e \<Rightarrow> (Inl e, h)
                | Inr kvs \<Rightarrow> func vs kvs h)))"

text \<open>
  \<^verbatim>\<open>_inject(func, squeeze_none)\<close>. \<^verbatim>\<open>functools.wraps\<close> makes \<^verbatim>\<open>inspect.signature\<close> report
  the signature of \<^verbatim>\<open>func\<close> for the wrapper; \<^verbatim>\<open>setattr(_, "_is_injected", True)\<close> marks it.
\<close>

definition inject_inner :: "callable \<Rightarrow> bool \<Rightarrow> error + callable" where
  "inject_inner func squeeze_none =
     (if is_injected func then Inr func
      else case signature func of
             None \<Rightarrow> Inl (ValueError ''no signature found'')
           | Some sig \<Rightarrow>
               Inr \<lparr>call = wrapper squeeze_none sig (call func),
                    signature = Some sig,
                    is_injected = True\<rparr>)"

text \<open>
  \<^verbatim>\<open>inject(func=None, squeeze_none=False)\<close>: with no function it returns
  \<^verbatim>\<open>functools.partial(_inject, squeeze_none=squeeze_none)\<close>, here \<open>Decorator squeeze_none\<close>,
  whose call on a function \<open>f\<close> is \<open>inject_inner f squeeze_none\<close>; with a callable it
  wraps it; anything else is a \<^verbatim>\<open>ValueError\<close>.
\<close>

datatype inject_arg = FuncNone | FuncCallable callable | FuncOther val

datatype inject_result = Wrapped callable | Decorator bool

definition inject :: "inject_arg \<Rightarrow> bool \<Rightarrow> error + inject_result" where
  "inject func squeeze_none =
     (case func of
        FuncNone \<Rightarrow> Inr (Decorator squeeze_none)
      | FuncCallable f \<Rightarrow>
          (case inject_inner f squeeze_none of Inl e \<Rightarrow> Inl e | Inr w \<Rightarrow> Inr (Wrapped w))
      | FuncOther v \<Rightarrow> Inl (ValueError ''You must pass either None or Callable''))"

section \<open>Notions used in the statements, and example objects\<close>

text \<open>
  \<open>resolved h a v\<close>: \<open>v\<close> is what the wrapper passes on for the bound argument \<open>a\<close>, namely
  the result of \<open>get()\<close> when \<open>a\<close> is a Provider and \<open>a\<close> itself otherwise.
  \<open>gets_succeed h a\<close>: if \<open>a\<close> is a Provider, its \<open>get()\<close> returns a value.
\<close>

definition resolved :: "heap \<Rightarrow> val \<Rightarrow> val \<Rightarrow> bool" where
  "resolved h a v \<longleftrightarrow>
     (\<forall>r p. a = VRef r \<and> h r = Some (ProviderObj p) \<longrightarrow> Provider_get p = Inr v)
     \<and> (\<not> isinstance_Provider h a \<longrightarrow> v = a)"

definition gets_succeed :: "heap \<Rightarrow> val \<Rightarrow> bool" where
  "gets_succeed h a \<longleftrightarrow>
     (\<forall>r p. a = VRef r \<and> h r = Some (ProviderObj p) \<longrightarrow> (\<exists>v. Provider_get p = Inr v))"

text \<open>The signature of \<^verbatim>\<open>def f(a=Provider_A, b=2)\<close>, with \<open>Provider_A\<close> stored at \<open>pa\<close>.\<close>

definition sig_f :: "addr \<Rightarrow> param list" where
  "sig_f pa =
     [\<lparr>pname = ''a'', pkind = POSITIONAL_OR_KEYWORD, pdefault = Some (VRef pa)\<rparr>,
      \<lparr>pname = ''b'', pkind = POSITIONAL_OR_KEYWORD, pdefault = Some (VInt 2)\<rparr>]"

text \<open>A base Provider after \<^verbatim>\<open>set(1)\<close>, and a store holding it at address 10.\<close>

definition P1 :: provider where
  "P1 = Provider_set (Provider_init Provider_class base_provide) (VInt 1)"

definition h1 :: heap where
  "h1 = [10 \<mapsto> ProviderObj P1]"

text \<open>A function that returns the arguments it was called with, and one that returns \<^verbatim>\<open>None\<close>.\<close>

definition echo :: pyfun where
  "echo args kw h = (Inr (VTuple [VTuple args, VDict kw]), h)"

definition f0 :: callable where
  "f0 = \<lparr>call = (\<lambda>args kw h. (Inr VNone, h)), signature = Some [], is_injected = False\<rparr>"

text \<open>A body of a \<^verbatim>\<open>with\<close> statement that raises at once.\<close>

definition failing_body :: "provider \<Rightarrow> (error + unit) \<times> provider" where
  "failing_body p = (Inl (Raised ''boom''), p)"

text \<open>
  \<^verbatim>\<open>class A(Provider, state_fields=("cache",))\<close> with a \<^verbatim>\<open>_provide\<close> that returns the
  cache, \<^verbatim>\<open>class B(A, state_fields=("ts",))\<close>, an instance of \<open>B\<close> with a filled cache and
  a new instance of \<open>B\<close>.
\<close>

definition class_A :: pyclass where
  "class_A = ProviderClass ''A'' [Provider_class] [] [''cache'']"

definition class_B :: pyclass where
  "class_B = ProviderClass ''B'' [class_A] [] [''ts'']"

definition provide_cache :: "attrs \<Rightarrow> error + val" where
  "provide_cache d = (case d ''cache'' of Some v \<Rightarrow> Inr v | None \<Rightarrow> Inl NotImplementedError)"

definition b_inst :: provider where
  "b_inst = \<lparr>STATE_FIELDS = STATE_FIELDS_of class_B, provide = provide_cache,
     attrs = [''_override'' \<mapsto> sentinel, ''cache'' \<mapsto> VInt 3, ''ts'' \<mapsto> VInt 9]\<rparr>"

definition b_fresh :: provider where
  "b_fresh = \<lparr>STATE_FIELDS = STATE_FIELDS_of class_B, provide = provide_cache,
     attrs = [''_override'' \<mapsto> sentinel, ''cache'' \<mapsto> VNone, ''ts'' \<mapsto> VNone]\<rparr>"

definition b_state :: attrs where
  "b_state = [''ts'' \<mapsto> VInt 9, ''cache'' \<mapsto> VInt 3, ''_override'' \<mapsto> sentinel]"

text \<open>The same instance after \<^verbatim>\<open>set(4)\<close>, and its exported state.\<close>

definition b_set :: provider where
  "b_set = Provider_set b_inst (VInt 4)"

definition b_set_state :: attrs where
  "b_set_state = [''ts'' \<mapsto> VInt 9, ''cache'' \<mapsto> VInt 3, ''_override'' \<mapsto> VInt 4]"

text \<open>
  Notions for \<^verbatim>\<open>sync_container\<close>. \<open>decl_default h a\<close>: the object at \<open>a\<close> is the
  type-level default of a field of some dataclass in the store. \<open>only_state_differs Q Q'\<close>:
  \<open>Q'\<close> is \<open>Q\<close> except for attributes among its state fields. \<open>defaults_written h h'\<close>:
  the store \<open>h'\<close> is \<open>h\<close> except that Providers which are type-level defaults may have new
  values in their state fields. \<open>field_default fs a\<close>: the object at \<open>a\<close> is the default of
  a field in the field list \<open>fs\<close>. \<open>has_nested h fs\<close>: some field of \<open>fs\<close> has a nested
  composite as its default. \<open>nested_default h a\<close>: the object at \<open>a\<close> is a type-level
  default of the declaration of a container that some container in the store holds as an
  attribute (or as a field default read through an instance).
\<close>

definition decl_default :: "heap \<Rightarrow> addr \<Rightarrow> bool" where
  "decl_default h a \<longleftrightarrow> (\<exists>c fs d name. h c = Some (DataObj fs d) \<and> (name, VRef a) \<in> set fs)"

definition field_default :: "field list \<Rightarrow> addr \<Rightarrow> bool" where
  "field_default fs a \<longleftrightarrow> (\<exists>name. (name, VRef a) \<in> set fs)"

definition has_nested :: "heap \<Rightarrow> field list \<Rightarrow> bool" where
  "has_nested h fs \<longleftrightarrow> (\<exists>(name, src)\<in>set fs. is_dataclass h src)"

definition nested_default :: "heap \<Rightarrow> addr \<Rightarrow> bool" where
  "nested_default h a \<longleftrightarrow>
     (\<exists>c fs d name c' fs' d' name'.
        h c = Some (DataObj fs d) \<and> (name, VRef a) \<in> set fs
        \<and> h c' = Some (DataObj fs' d') \<and> getattr_or_None h (VRef c') name' = VRef c)"

definition only_state_differs :: "provider \<Rightarrow> provider \<Rightarrow> bool" where
  "only_state_differs Q Q' \<longleftrightarrow>
     STATE_FIELDS Q' = STATE_FIELDS Q \<and> provide Q' = provide Q
     \<and> (\<forall>f. f \<notin> set (STATE_FIELDS Q) \<longrightarrow> attrs Q' f = attrs Q f)"

definition defaults_written :: "heap \<Rightarrow> heap \<Rightarrow> bool" where
  "defaults_written h h' \<longleftrightarrow>
     (\<forall>a. h' a = h a
        \<or> (decl_default h a
            \<and> (\<exists>Q Q'. h a = Some (ProviderObj Q) \<and> h' a = Some (ProviderObj Q')
                  \<and> only_state_differs Q Q')))"

text \<open>
  A declared structure with one field \<^verbatim>\<open>p\<close> whose type-level default is the Provider at
  address 21 (no override), and two instances of it: the one at 30 holds its own Provider
  23 (override 5), the one at 31 its own Provider 22 (override 7).
\<close>

definition P0 :: provider where
  "P0 = Provider_init Provider_class base_provide"

definition P5 :: provider where
  "P5 = Provider_set P0 (VInt 5)"

definition P7 :: provider where
  "P7 = Provider_set P0 (VInt 7)"

definition decl_fields :: "field list" where
  "decl_fields = [(''p'', VRef 21)]"

definition h2 :: heap where
  "h2 = [21 \<mapsto> ProviderObj P0, 22 \<mapsto> ProviderObj P7, 23 \<mapsto> ProviderObj P5,
         30 \<mapsto> DataObj decl_fields [''p'' \<mapsto> VRef 23],
         31 \<mapsto> DataObj decl_fields [''p'' \<mapsto> VRef 22]]"

text \<open>
  A declared structure with a Provider field \<^verbatim>\<open>p\<close> (default at 51) and a nested composite
  field \<^verbatim>\<open>sub\<close> (default: the container at 60, whose own declaration has one Provider
  field \<^verbatim>\<open>q\<close> with default 54). The instance at 70 holds Provider 53 and the default
  container 60; the instance at 71 holds Provider 52 (override 7) and its own nested
  container 61, which holds Provider 55.
\<close>

definition sub_fields :: "field list" where
  "sub_fields = [(''q'', VRef 54)]"

definition nested_fields :: "field list" where
  "nested_fields = [(''p'', VRef 51), (''sub'', VRef 60)]"

definition h3 :: heap where
  "h3 = [51 \<mapsto> ProviderObj P0, 52 \<mapsto> ProviderObj P7, 53 \<mapsto> ProviderObj P5,
         54 \<mapsto> ProviderObj P0, 55 \<mapsto> ProviderObj P5,
         60 \<mapsto> DataObj sub_fields [''q'' \<mapsto> VRef 54],
         61 \<mapsto> DataObj sub_fields [''q'' \<mapsto> VRef 55],
         70 \<mapsto> DataObj nested_fields [''p'' \<mapsto> VRef 53, ''sub'' \<mapsto> VRef 60],
         71 \<mapsto> DataObj nested_fields [''p'' \<mapsto> VRef 52, ''sub'' \<mapsto> VRef 61]]"

text \<open>
  The one-field declaration again, with instances whose attribute \<^verbatim>\<open>p\<close> is not a Provider:
  an object with the instance dictionary \<^verbatim>\<open>{"_override": 42}\<close> (at 82, held by 91), and
  the integer 3 (held by 92).
\<close>

definition P42 :: provider where
  "P42 = Provider_set P0 (VInt 42)"

definition h4 :: heap where
  "h4 = [81 \<mapsto> ProviderObj P0, 82 \<mapsto> OtherObj [''_override'' \<mapsto> VInt 42],
         90 \<mapsto> DataObj [(''p'', VRef 81)] [''p'' \<mapsto> VRef 81],
         91 \<mapsto> DataObj [(''p'', VRef 81)] [''p'' \<mapsto> VRef 82],
         92 \<mapsto> DataObj [(''p'', VRef 81)] [''p'' \<mapsto> VInt 3]]"

section \<open>Properties of \<^verbatim>\<open>set\<close>, \<^verbatim>\<open>get\<close> and \<^verbatim>\<open>patch\<close>\<close>

lemma getattr_setattr_same: "getattr (setattr self f v) f = Inr v"
  by (simp add: getattr_def setattr_def)

text \<open>
  C7. For every Provider \<open>P\<close> and every value \<open>v\<close> that is not an instance of the sentinel
  class, \<open>P.get()\<close> returns \<open>v\<close> after \<open>P.set(v)\<close>; and \<open>P.set(sentinel)\<close> leaves the provider,
  its override included, as it was.
\<close>

theorem set_then_get:
  "(\<not> isinstance_SentinelClass v \<longrightarrow> Provider_get (Provider_set P v) = Inr v)
   \<and> Provider_set P sentinel = P"
  by (simp add: Provider_get_def Provider_set_def getattr_setattr_same sentinel_def)

theorem set_then_get_witness:
  "\<not> isinstance_SentinelClass (VInt 5)
   \<and> Provider_get (Provider_set (Provider_init Provider_class base_provide) (VInt 5)) = Inr (VInt 5)
   \<and> Provider_set (Provider_init Provider_class base_provide) sentinel
       = Provider_init Provider_class base_provide"
  using set_then_get [of "VInt 5" "Provider_init Provider_class base_provide"] by simp


text \<open>
  C8. For every Provider \<open>P\<close>, \<open>P.patch(sentinel)\<close> is a pure no-op. Entering the scope
  saves nothing (the generator is parked at its first \<^verbatim>\<open>yield\<close>, with no \<^verbatim>\<open>original\<close>)
  and hands the body the provider as it was, so \<open>get()\<close> inside the scope is \<open>get()\<close> before
  it; leaving the scope, normally or by an exception, restores nothing; and the whole
  \<^verbatim>\<open>with\<close> statement does to the provider exactly what its body alone does.
\<close>

theorem patch_sentinel_noop:
  "patch_enter P sentinel = Inr (AtFirstYield, P)
   \<and> patch_resume AtFirstYield Q = Q
   \<and> patch_throw AtFirstYield Q = Q
   \<and> with_patch P sentinel body = body P"
  by (simp add: with_patch_def patch_enter_def sentinel_def split: prod.splits sum.splits)

text \<open>
  On the exit path where the body ends normally, \<^verbatim>\<open>patch\<close> does put the saved override
  back, whatever the body did to the provider.
\<close>

lemma with_patch_normal_exit:
  "\<not> isinstance_SentinelClass v \<Longrightarrow> getattr P ''_override'' = Inr original \<Longrightarrow>
   body (setattr P ''_override'' v) = (Inr r, P') \<Longrightarrow>
   with_patch P v body = (Inr r, setattr P' ''_override'' original)"
  by (simp add: with_patch_def patch_enter_def)

text \<open>
  C1. The claim is that \<open>P.patch(v)\<close> restores the override on every exit path, so that
  after a body that raises \<open>P.get()\<close> is what it was before the scope. Evaluated on the
  provider \<open>P1\<close> (override 1), the value 2 and a body that raises: \<open>get()\<close> is 1 before the
  scope, the exception propagates, and \<open>get()\<close> is 2 afterwards. The override has leaked.
\<close>

theorem patch_not_restored_on_failure:
  "Provider_get P1 = Inr (VInt 1)
   \<and> fst (with_patch P1 (VInt 2) failing_body) = Inl (Raised ''boom'')
   \<and> Provider_get (snd (with_patch P1 (VInt 2) failing_body)) = Inr (VInt 2)"
  by (simp add: P1_def with_patch_def patch_enter_def Provider_get_def Provider_set_def
      Provider_init_def getattr_def setattr_def failing_body_def)

text \<open>
  C5, as stated: only the one object \<^verbatim>\<open>sentinel\<close> is recognised as "not passed". It is
  refuted by a second instance of \<^verbatim>\<open>_SentinelClass\<close>: it is not the singleton, yet
  \<^verbatim>\<open>set\<close> ignores it, \<^verbatim>\<open>patch\<close> takes its pass-through branch and the default-mode
  filter drops it.
\<close>

theorem sentinel_identity_counterexample:
  "VSentinel 1 \<noteq> sentinel
   \<and> Provider_set P1 (VSentinel 1) = P1
   \<and> patch_enter P1 (VSentinel 1) = Inr (AtFirstYield, P1)
   \<and> filtered_args False [VSentinel 1, VInt 3] = [VInt 3]"
  by (simp add: sentinel_def Provider_set_def patch_enter_def filtered_args_def)

text \<open>
  C5, amended: a value is treated as "not passed" by \<^verbatim>\<open>Provider.set\<close>, by
  \<^verbatim>\<open>Provider.patch\<close> and by the default-mode argument filter exactly when it is an
  instance of the sentinel class \<^verbatim>\<open>_SentinelClass\<close>; the singleton \<^verbatim>\<open>sentinel\<close> is such an
  instance, and no value of another type is recognised.
\<close>

theorem sentinel_by_class:
  "isinstance_SentinelClass sentinel
   \<and> (isinstance_SentinelClass v \<longleftrightarrow> (\<forall>P. Provider_set P v = P))
   \<and> (isinstance_SentinelClass v \<longleftrightarrow> (\<forall>P. patch_enter P v = Inr (AtFirstYield, P)))
   \<and> (isinstance_SentinelClass v \<longleftrightarrow> filtered_args False [v] = [])
   \<and> (isinstance_SentinelClass v \<longleftrightarrow> filtered_kwargs False [(k, v)] = [])"
proof -
  let ?P = "\<lparr>STATE_FIELDS = [], provide = base_provide, attrs = Map.empty\<rparr>"
  have a: "isinstance_SentinelClass sentinel" by (simp add: sentinel_def)
  have b: "isinstance_SentinelClass v \<longleftrightarrow> (\<forall>P. Provider_set P v = P)"
  proof
    assume "isinstance_SentinelClass v"
    then show "\<forall>P. Provider_set P v = P" by (simp add: Provider_set_def)
  next
    assume h: "\<forall>P. Provider_set P v = P"
    show "isinstance_SentinelClass v"
    proof (rule ccontr)
      assume n: "\<not> isinstance_SentinelClass v"
      from h have "Provider_set ?P v = ?P" by blast
      with n have "attrs (setattr ?P ''_override'' v) ''_override'' = attrs ?P ''_override''"
        by (simp add: Provider_set_def)
      then show False by (simp add: setattr_def)
    qed
  qed
  have c: "isinstance_SentinelClass v \<longleftrightarrow> (\<forall>P. patch_enter P v = Inr (AtFirstYield, P))"
  proof
    assume "isinstance_SentinelClass v"
    then show "\<forall>P. patch_enter P v = Inr (AtFirstYield, P)" by (simp add: patch_enter_def)
  next
    assume h: "\<forall>P. patch_enter P v = Inr (AtFirstYield, P)"
    show "isinstance_SentinelClass v"
    proof (rule ccontr)
      assume n: "\<not> isinstance_SentinelClass v"
      from h have "patch_enter ?P v = Inr (AtFirstYield, ?P)" by blast
      with n show False by (simp add: patch_enter_def getattr_def)
    qed
  qed
  have d: "isinstance_SentinelClass v \<longleftrightarrow> filtered_args False [v] = []"
    by (simp add: filtered_args_def)
  have e: "isinstance_SentinelClass v \<longleftrightarrow> filtered_kwargs False [(k, v)] = []"
    by (simp add: filtered_kwargs_def)
  from a b c d e show ?thesis by blast
qed

theorem sentinel_by_class_witness:
  "isinstance_SentinelClass (VSentinel 1) \<and> (\<forall>P. Provider_set P (VSentinel 1) = P)
   \<and> \<not> isinstance_SentinelClass VNone \<and> filtered_args False [VNone] \<noteq> []"
  using sentinel_by_class [of "VSentinel 1"] sentinel_by_class [of VNone] by simp

section \<open>Properties of the injection wrapper\<close>

text \<open>
  C9. Wrapping is idempotent: \<^verbatim>\<open>_inject\<close> applied to a callable it has produced (one that
  carries the marker \<^verbatim>\<open>_is_injected\<close>) returns that very callable, whatever
  \<^verbatim>\<open>squeeze_none\<close> is passed the second time, also through the public \<^verbatim>\<open>inject\<close>; so the
  twice-wrapped function is the once-wrapped function, for every call.
\<close>

theorem inject_idempotent:
  "inject_inner f sq = Inr w \<Longrightarrow>
     is_injected w \<and> inject_inner w sq' = Inr w
     \<and> inject (FuncCallable w) sq' = Inr (Wrapped w)"
  by (auto simp: inject_inner_def inject_def split: if_splits option.splits)

theorem inject_idempotent_witness:
  "inject_inner f0 False
     = Inr \<lparr>call = wrapper False [] (call f0), signature = Some [], is_injected = True\<rparr>
   \<and> inject_inner \<lparr>call = wrapper False [] (call f0), signature = Some [], is_injected = True\<rparr> True
     = Inr \<lparr>call = wrapper False [] (call f0), signature = Some [], is_injected = True\<rparr>"
proof -
  have h: "inject_inner f0 False
     = Inr \<lparr>call = wrapper False [] (call f0), signature = Some [], is_injected = True\<rparr>"
    by (simp add: inject_inner_def f0_def)
  from inject_idempotent [OF h, of True] h show ?thesis by simp
qed

lemma resolve_resolved: "resolve h a = Inr v \<Longrightarrow> resolved h a v"
  by (cases a) (auto simp: resolved_def split: option.splits obj.splits)

lemma resolve_total: "gets_succeed h a \<Longrightarrow> \<exists>v. resolve h a = Inr v"
  by (cases a) (auto simp: gets_succeed_def split: option.splits obj.splits)

lemma inject_args_ok:
  "\<forall>a\<in>set as. gets_succeed h a \<Longrightarrow>
   \<exists>vs. inject_args h as = Inr vs \<and> list_all2 (resolved h) as vs"
proof (induction as)
  case Nil
  then show ?case by simp
next
  case (Cons a as)
  then obtain vs where vs: "inject_args h as = Inr vs" "list_all2 (resolved h) as vs" by auto
  from Cons.prems obtain v where v: "resolve h a = Inr v" using resolve_total by fastforce
  from v vs show ?case by (simp add: resolve_resolved)
qed

lemma inject_kwargs_ok:
  "\<forall>a\<in>snd ` set kw. gets_succeed h a \<Longrightarrow>
   \<exists>kvs. inject_kwargs h kw = Inr kvs
      \<and> list_all2 (\<lambda>(k, a) (k', v). k' = k \<and> resolved h a v) kw kvs"
proof (induction kw)
  case Nil
  then show ?case by simp
next
  case (Cons ka kw)
  obtain k a where ka: "ka = (k, a)" by (cases ka)
  from Cons obtain kvs where kvs: "inject_kwargs h kw = Inr kvs"
     "list_all2 (\<lambda>(k, a) (k', v). k' = k \<and> resolved h a v) kw kvs" by auto
  from Cons.prems ka obtain v where v: "resolve h a = Inr v" using resolve_total by fastforce
  from v kvs ka show ?case by (simp add: resolve_resolved)
qed

lemma wrapper_sig_f_default_mode:
  assumes "h pa = Some (ProviderObj A)"
  shows "wrapper False (sig_f pa) func [] [] h
           = (case Provider_get A of Inl e \<Rightarrow> (Inl e, h) | Inr v \<Rightarrow> func [v, VInt 2] [] h)
       \<and> wrapper False (sig_f pa) func [] [(''a'', VInt 5)] h = func [VInt 5, VInt 2] [] h
       \<and> wrapper False (sig_f pa) func [VInt 5] [] h = func [VInt 5, VInt 2] [] h"
  using assms
  by (simp add: wrapper_def sig_f_def bind_partial_def filtered_args_def filtered_kwargs_def
      apply_defaults_def bound_kwargs_def split: sum.splits)

lemma wrapper_resolves_bound_arguments:
  assumes "bind_partial sig (filtered_args sq args) (filtered_kwargs sq kw) = Inr arguments"
    and "\<forall>a \<in> set (bound_args sig (apply_defaults sig arguments)). gets_succeed h a"
    and "\<forall>a \<in> snd ` set (bound_kwargs sig (apply_defaults sig arguments)). gets_succeed h a"
  shows "\<exists>vs kvs. wrapper sq sig func args kw h = func vs kvs h
          \<and> list_all2 (resolved h) (bound_args sig (apply_defaults sig arguments)) vs
          \<and> list_all2 (\<lambda>(k, a) (k', v). k' = k \<and> resolved h a v)
               (bound_kwargs sig (apply_defaults sig arguments)) kvs"
proof -
  from inject_args_ok [OF assms(2)] obtain vs where
    vs: "inject_args h (bound_args sig (apply_defaults sig arguments)) = Inr vs"
        "list_all2 (resolved h) (bound_args sig (apply_defaults sig arguments)) vs" by blast
  from inject_kwargs_ok [OF assms(3)] obtain kvs where
    kvs: "inject_kwargs h (bound_kwargs sig (apply_defaults sig arguments)) = Inr kvs"
        "list_all2 (\<lambda>(k, a) (k', v). k' = k \<and> resolved h a v)
               (bound_kwargs sig (apply_defaults sig arguments)) kvs" by blast
  have "wrapper sq sig func args kw h = func vs kvs h"
    using assms(1) vs(1) kvs(1) by (simp add: wrapper_def)
  with vs(2) kvs(2) show ?thesis by blast
qed

lemma inject_builds_wrapper:
  "\<not> is_injected f \<Longrightarrow> signature f = Some sg \<Longrightarrow>
   inject (FuncCallable f) sq
     = Inr (Wrapped \<lparr>call = wrapper sq sg (call f), signature = Some sg, is_injected = True\<rparr>)"
  by (simp add: inject_def inject_inner_def)

text \<open>
  C3. For \<^verbatim>\<open>f(a=Provider_A, b=2)\<close> wrapped in default mode, with \<open>Provider_A\<close> the
  Provider \<open>A\<close> stored at \<open>pa\<close>: a call with no arguments calls \<open>f\<close> with \<open>a = A.get()\<close>
  and \<open>b = 2\<close> (and fails as \<open>A.get()\<close> does if that fails); a call with \<open>a = 5\<close>, by
  keyword or by position, calls \<open>f\<close> with \<open>a = 5\<close> and \<open>b = 2\<close>. In general, for any
  signature, mode and call: when the filtered arguments bind and every Provider among the
  bound arguments has a \<open>get()\<close> that returns, the wrapper calls the function with one
  value per bound positional argument and per bound keyword argument, under the same
  keyword, each the result of \<open>get()\<close> where the bound argument is a Provider and the bound
  argument itself otherwise. The wrapper meant is the one \<^verbatim>\<open>inject\<close> returns for a function
  \<open>fn\<close> that is not yet wrapped: its calls are \<open>wrapper sq sg (call fn)\<close>, with \<open>sg\<close> the
  signature of \<open>fn\<close>.
\<close>

theorem inject_resolves_providers:
  "(h pa = Some (ProviderObj A) \<longrightarrow>
      wrapper False (sig_f pa) func [] [] h
        = (case Provider_get A of Inl e \<Rightarrow> (Inl e, h) | Inr v \<Rightarrow> func [v, VInt 2] [] h)
      \<and> wrapper False (sig_f pa) func [] [(''a'', VInt 5)] h = func [VInt 5, VInt 2] [] h
      \<and> wrapper False (sig_f pa) func [VInt 5] [] h = func [VInt 5, VInt 2] [] h)
   \<and> (bind_partial sig (filtered_args sq args) (filtered_kwargs sq kw) = Inr arguments
      \<and> (\<forall>a \<in> set (bound_args sig (apply_defaults sig arguments)). gets_succeed h a)
      \<and> (\<forall>a \<in> snd ` set (bound_kwargs sig (apply_defaults sig arguments)). gets_succeed h a)
      \<longrightarrow> (\<exists>vs kvs. wrapper sq sig func args kw h = func vs kvs h
          \<and> list_all2 (resolved h) (bound_args sig (apply_defaults sig arguments)) vs
          \<and> list_all2 (\<lambda>(k, a) (k', v). k' = k \<and> resolved h a v)
               (bound_kwargs sig (apply_defaults sig arguments)) kvs))
   \<and> (\<not> is_injected fn \<and> signature fn = Some sg \<longrightarrow>
        inject (FuncCallable fn) sq
          = Inr (Wrapped \<lparr>call = wrapper sq sg (call fn), signature = Some sg,
                          is_injected = True\<rparr>))"
  using wrapper_sig_f_default_mode [of h pa A func]
    wrapper_resolves_bound_arguments [of sig sq args kw arguments h func]
    inject_builds_wrapper [of fn sg sq]
  by blast


theorem inject_resolves_providers_witness:
  "wrapper False (sig_f 10) echo [] [] h1 = (Inr (VTuple [VTuple [VInt 1, VInt 2], VDict []]), h1)
   \<and> wrapper False (sig_f 10) echo [] [(''a'', VInt 5)] h1
       = (Inr (VTuple [VTuple [VInt 5, VInt 2], VDict []]), h1)
   \<and> (\<exists>vs kvs. wrapper False (sig_f 10) echo [] [] h1 = echo vs kvs h1
        \<and> list_all2 (resolved h1) [VRef 10, VInt 2] vs)
   \<and> inject (FuncCallable f0) False
       = Inr (Wrapped \<lparr>call = wrapper False [] (call f0), signature = Some [],
                       is_injected = True\<rparr>)"
proof -
  have p: "h1 10 = Some (ProviderObj P1)" by (simp add: h1_def)
  have g: "Provider_get P1 = Inr (VInt 1)"
    by (simp add: P1_def Provider_get_def Provider_set_def Provider_init_def getattr_def
        setattr_def)
  have b: "bind_partial (sig_f 10) (filtered_args False []) (filtered_kwargs False []) = Inr []"
    by (simp add: bind_partial_def sig_f_def filtered_args_def filtered_kwargs_def)
  have ba: "bound_args (sig_f 10) (apply_defaults (sig_f 10) []) = [VRef 10, VInt 2]"
    by (simp add: sig_f_def apply_defaults_def)
  have bk: "bound_kwargs (sig_f 10) (apply_defaults (sig_f 10) []) = []"
    by (simp add: sig_f_def bound_kwargs_def apply_defaults_def)
  have s: "\<forall>a \<in> set [VRef 10, VInt 2]. gets_succeed h1 a"
    using g by (simp add: gets_succeed_def h1_def)
  note t = inject_resolves_providers [of h1 10 P1 echo "sig_f 10" False "[]" "[]" "[]" f0 "[]"]
  have f: "\<not> is_injected f0 \<and> signature f0 = Some []" by (simp add: f0_def)
  from t f have c4: "inject (FuncCallable f0) False
       = Inr (Wrapped \<lparr>call = wrapper False [] (call f0), signature = Some [],
                       is_injected = True\<rparr>)"
    by blast
  from t p g have c1: "wrapper False (sig_f 10) echo [] [] h1
      = (Inr (VTuple [VTuple [VInt 1, VInt 2], VDict []]), h1)"
    by (simp add: echo_def)
  from t p have c2: "wrapper False (sig_f 10) echo [] [(''a'', VInt 5)] h1
       = (Inr (VTuple [VTuple [VInt 5, VInt 2], VDict []]), h1)"
    by (simp add: echo_def)
  from t b s have c3: "\<exists>vs kvs. wrapper False (sig_f 10) echo [] [] h1 = echo vs kvs h1
        \<and> list_all2 (resolved h1) [VRef 10, VInt 2] vs"
    unfolding ba bk by auto
  from c1 c2 c3 c4 show ?thesis by blast
qed

lemma wrapper_sig_f_None_and_sentinel:
  assumes "h pa = Some (ProviderObj A)"
  shows "wrapper True (sig_f pa) func [] [(''a'', VNone)] h
           = (case Provider_get A of Inl e \<Rightarrow> (Inl e, h) | Inr v \<Rightarrow> func [v, VInt 2] [] h)
       \<and> wrapper True (sig_f pa) func [VNone] [] h
           = (case Provider_get A of Inl e \<Rightarrow> (Inl e, h) | Inr v \<Rightarrow> func [v, VInt 2] [] h)
       \<and> wrapper False (sig_f pa) func [] [(''a'', VNone)] h = func [VNone, VInt 2] [] h
       \<and> wrapper False (sig_f pa) func [VNone] [] h = func [VNone, VInt 2] [] h
       \<and> wrapper False (sig_f pa) func [] [(''a'', sentinel)] h
           = (case Provider_get A of Inl e \<Rightarrow> (Inl e, h) | Inr v \<Rightarrow> func [v, VInt 2] [] h)
       \<and> wrapper True (sig_f pa) func [] [(''a'', sentinel)] h = func [sentinel, VInt 2] [] h"
  using assms
  by (simp add: wrapper_def sig_f_def bind_partial_def filtered_args_def filtered_kwargs_def
      apply_defaults_def bound_kwargs_def sentinel_def split: sum.splits)

text \<open>
  C4. Before binding, the wrapper filters positional and keyword arguments by one of two
  rules, chosen by \<^verbatim>\<open>squeeze_none\<close>. In default mode it drops exactly the arguments that
  are instances of the sentinel class and keeps \<^verbatim>\<open>None\<close>; with \<^verbatim>\<open>squeeze_none\<close> it
  drops exactly the arguments that are \<^verbatim>\<open>None\<close> and keeps a sentinel. So for
  \<^verbatim>\<open>f(a=Provider_A, b=2)\<close>: with \<^verbatim>\<open>squeeze_none\<close>, passing \<open>a = None\<close> calls \<open>f\<close> with
  \<open>a = Provider_A.get()\<close>; in default mode it calls \<open>f\<close> with \<open>a = None\<close>, while passing
  the sentinel falls back to \<open>Provider_A.get()\<close>; and with \<^verbatim>\<open>squeeze_none\<close> a sentinel
  reaches \<open>f\<close> as it is.
\<close>

theorem inject_filter_modes:
  "filtered_args sq args
     = filter (\<lambda>a. if sq then a \<noteq> VNone else \<not> isinstance_SentinelClass a) args
   \<and> filtered_kwargs sq kw
     = filter (\<lambda>(k, v). if sq then v \<noteq> VNone else \<not> isinstance_SentinelClass v) kw
   \<and> (h pa = Some (ProviderObj A) \<longrightarrow>
       wrapper True (sig_f pa) func [] [(''a'', VNone)] h
           = (case Provider_get A of Inl e \<Rightarrow> (Inl e, h) | Inr v \<Rightarrow> func [v, VInt 2] [] h)
       \<and> wrapper True (sig_f pa) func [VNone] [] h
           = (case Provider_get A of Inl e \<Rightarrow> (Inl e, h) | Inr v \<Rightarrow> func [v, VInt 2] [] h)
       \<and> wrapper False (sig_f pa) func [] [(''a'', VNone)] h = func [VNone, VInt 2] [] h
       \<and> wrapper False (sig_f pa) func [VNone] [] h = func [VNone, VInt 2] [] h
       \<and> wrapper False (sig_f pa) func [] [(''a'', sentinel)] h
           = (case Provider_get A of Inl e \<Rightarrow> (Inl e, h) | Inr v \<Rightarrow> func [v, VInt 2] [] h)
       \<and> wrapper True (sig_f pa) func [] [(''a'', sentinel)] h = func [sentinel, VInt 2] [] h)"
  using wrapper_sig_f_None_and_sentinel [of h pa A func]
  by (simp add: filtered_args_def filtered_kwargs_def)

theorem inject_filter_modes_witness:
  "filtered_args False [sentinel, VNone, VInt 3] = [VNone, VInt 3]
   \<and> filtered_args True [sentinel, VNone, VInt 3] = [sentinel, VInt 3]
   \<and> wrapper True (sig_f 10) echo [] [(''a'', VNone)] h1
       = (Inr (VTuple [VTuple [VInt 1, VInt 2], VDict []]), h1)
   \<and> wrapper False (sig_f 10) echo [] [(''a'', VNone)] h1
       = (Inr (VTuple [VTuple [VNone, VInt 2], VDict []]), h1)"
proof -
  have p: "h1 10 = Some (ProviderObj P1)" by (simp add: h1_def)
  have g: "Provider_get P1 = Inr (VInt 1)"
    by (simp add: P1_def Provider_get_def Provider_set_def Provider_init_def getattr_def
        setattr_def)
  from inject_filter_modes [of False "[sentinel, VNone, VInt 3]" "[]" h1 10 P1 echo]
    inject_filter_modes [of True "[sentinel, VNone, VInt 3]" "[]" h1 10 P1 echo] p g
  show ?thesis by (simp add: echo_def sentinel_def)
qed

text \<open>
  C10. The filter runs on the positional arguments before they are bound, so a dropped
  positional argument moves every later one a slot to the left. For a wrapped \<open>f(a, b)\<close>
  (two positional-or-keyword parameters, with or without defaults) called as
  \<open>f(sentinel, x)\<close> in default mode, or as \<open>f(None, x)\<close> with \<^verbatim>\<open>squeeze_none\<close>, where \<open>x\<close>
  is not itself filtered: \<open>x\<close> is bound to \<open>a\<close>, nothing is bound to \<open>b\<close>, and the call
  does what \<open>f(x)\<close> does.
\<close>

theorem dropped_positional_shifts_left:
  assumes "sig = [\<lparr>pname = a, pkind = POSITIONAL_OR_KEYWORD, pdefault = da\<rparr>,
                  \<lparr>pname = b, pkind = POSITIONAL_OR_KEYWORD, pdefault = db\<rparr>]"
  shows "(isinstance_SentinelClass s \<and> \<not> isinstance_SentinelClass x \<longrightarrow>
            bind_partial sig (filtered_args False [s, x]) (filtered_kwargs False []) = Inr [(a, x)]
            \<and> wrapper False sig func [s, x] [] h = wrapper False sig func [x] [] h)
       \<and> (x \<noteq> VNone \<longrightarrow>
            bind_partial sig (filtered_args True [VNone, x]) (filtered_kwargs True []) = Inr [(a, x)]
            \<and> wrapper True sig func [VNone, x] [] h = wrapper True sig func [x] [] h)"
  using assms
  by (simp add: wrapper_def bind_partial_def filtered_args_def filtered_kwargs_def)

theorem dropped_positional_shifts_left_witness:
  "bind_partial (sig_f 10) (filtered_args False [sentinel, VInt 7]) (filtered_kwargs False [])
     = Inr [(''a'', VInt 7)]
   \<and> wrapper False (sig_f 10) echo [sentinel, VInt 7] [] h1
     = (Inr (VTuple [VTuple [VInt 7, VInt 2], VDict []]), h1)
   \<and> wrapper True (sig_f 10) echo [VNone, VInt 7] [] h1
     = (Inr (VTuple [VTuple [VInt 7, VInt 2], VDict []]), h1)"
proof -
  have w: "wrapper False (sig_f 10) echo [VInt 7] [] h1
             = (Inr (VTuple [VTuple [VInt 7, VInt 2], VDict []]), h1)"
    "wrapper True (sig_f 10) echo [VInt 7] [] h1
             = (Inr (VTuple [VTuple [VInt 7, VInt 2], VDict []]), h1)"
    by (simp_all add: wrapper_def sig_f_def bind_partial_def filtered_args_def
        filtered_kwargs_def apply_defaults_def bound_kwargs_def echo_def)
  from dropped_positional_shifts_left [of "sig_f 10" "''a''" "Some (VRef 10)" "''b''"
      "Some (VInt 2)" sentinel "VInt 7" echo h1] w
  show ?thesis by (simp add: sig_f_def sentinel_def)
qed

section \<open>Properties of the state fields\<close>

lemma set_ProviderMeta_new:
  "set (ProviderMeta_new kw bs asf) = set kw \<union> (\<Union>b\<in>set bs. set b) \<union> set asf"
  by (auto simp: ProviderMeta_new_def)

lemma base_STATE_FIELDS_subset:
  "a \<in> set (bases_of c) \<Longrightarrow> set (STATE_FIELDS_of a) \<subseteq> set (STATE_FIELDS_of c)"
  by (cases c) (auto simp: set_ProviderMeta_new)

lemma ancestor_STATE_FIELDS_subset:
  "a \<in> set (ancestors c) \<Longrightarrow> set (STATE_FIELDS_of a) \<subseteq> set (STATE_FIELDS_of c)"
proof (induction c rule: ancestors.induct)
  case (1 sf)
  then show ?case by simp
next
  case (2 class_name bases attrs_sf kw_sf)
  let ?c = "ProviderClass class_name bases attrs_sf kw_sf"
  from "2.prems" consider (direct) "a \<in> set bases"
    | (indirect) b where "b \<in> set bases" "a \<in> set (ancestors b)" by auto
  then show ?case
  proof cases
    case direct
    then have "a \<in> set (bases_of ?c)" by simp
    then show ?thesis by (rule base_STATE_FIELDS_subset)
  next
    case indirect
    from indirect have "set (STATE_FIELDS_of a) \<subseteq> set (STATE_FIELDS_of b)"
      by (rule "2.IH")
    moreover from indirect(1) have "b \<in> set (bases_of ?c)" by simp
    then have "set (STATE_FIELDS_of b) \<subseteq> set (STATE_FIELDS_of ?c)"
      by (rule base_STATE_FIELDS_subset)
    ultimately show ?thesis by blast
  qed
qed

lemma getstate_loop_result:
  "getstate_loop self fs d = Inr st \<Longrightarrow>
     (\<forall>f\<in>set fs. st f = attrs self f \<and> attrs self f \<noteq> None)
     \<and> (\<forall>f. f \<notin> set fs \<longrightarrow> st f = d f)"
proof (induction fs arbitrary: d)
  case Nil
  then show ?case by simp
next
  case (Cons g fs)
  from Cons.prems obtain v where v: "attrs self g = Some v"
    and rest: "getstate_loop self fs (d(g \<mapsto> v)) = Inr st"
    by (auto simp: getattr_def split: option.splits)
  from Cons.IH [OF rest] have
    ih1: "\<forall>f\<in>set fs. st f = attrs self f \<and> attrs self f \<noteq> None"
    and ih2: "\<forall>f. f \<notin> set fs \<longrightarrow> st f = (d(g \<mapsto> v)) f" by blast+
  have "st g = attrs self g"
  proof (cases "g \<in> set fs")
    case True
    with ih1 show ?thesis by blast
  next
    case False
    with ih2 v show ?thesis by simp
  qed
  with ih1 ih2 v show ?case by auto
qed

lemma Provider_getstate_result:
  assumes "Provider_getstate self = Inr st"
  shows "dom st = set (STATE_FIELDS self)" and "\<forall>f\<in>set (STATE_FIELDS self). st f = attrs self f"
proof -
  from assms have r: "(\<forall>f\<in>set (STATE_FIELDS self). st f = attrs self f \<and> attrs self f \<noteq> None)
     \<and> (\<forall>f. f \<notin> set (STATE_FIELDS self) \<longrightarrow> st f = Map.empty f)"
    unfolding Provider_getstate_def by (rule getstate_loop_result)
  then show "\<forall>f\<in>set (STATE_FIELDS self). st f = attrs self f" by blast
  from r show "dom st = set (STATE_FIELDS self)" by (auto simp: dom_def)
qed

lemma setstate_loop_result:
  "setstate_loop self fs st = (r, self') \<Longrightarrow>
     STATE_FIELDS self' = STATE_FIELDS self \<and> provide self' = provide self
     \<and> (\<forall>f. f \<notin> set fs \<longrightarrow> attrs self' f = attrs self f)
     \<and> (r = None \<longrightarrow> (\<forall>f\<in>set fs. attrs self' f = st f))"
proof (induction fs arbitrary: self)
  case Nil
  then show ?case by simp
next
  case (Cons g fs)
  show ?case
  proof (cases "st g")
    case None
    with Cons.prems show ?thesis by auto
  next
    case (Some v)
    with Cons.prems have rest: "setstate_loop (setattr self g v) fs st = (r, self')" by simp
    from Cons.IH [OF rest] have
      ih: "STATE_FIELDS self' = STATE_FIELDS self" "provide self' = provide self"
        "\<forall>f. f \<notin> set fs \<longrightarrow> attrs self' f = (if f = g then Some v else attrs self f)"
        "r = None \<longrightarrow> (\<forall>f\<in>set fs. attrs self' f = st f)"
      by (simp_all add: setattr_def)
    have "r = None \<longrightarrow> attrs self' g = st g"
    proof (cases "g \<in> set fs")
      case True
      with ih(4) show ?thesis by blast
    next
      case False
      with ih(3) Some show ?thesis by simp
    qed
    with ih show ?thesis by auto
  qed
qed

lemma setstate_loop_total:
  "set fs \<subseteq> dom st \<Longrightarrow> \<exists>self'. setstate_loop self fs st = (None, self')"
  by (induction fs arbitrary: self) auto


text \<open>
  C6. The state fields a class gets from \<^verbatim>\<open>ProviderMeta.__new__\<close> are the union of its
  own declared fields and the state fields of its bases, without repetition, so they
  include the state fields of every ancestor \<open>C\<close> of a class \<open>D\<close>. For a class \<open>B\<close> with a
  base \<open>A\<close> and an added field \<open>f\<close>: the state exported by an instance \<open>b\<close> of \<open>B\<close> has
  exactly the state fields of \<open>B\<close> as its keys, among them those of \<open>A\<close> and \<open>f\<close>; and
  importing it into a fresh instance of \<open>B\<close> (one with the same \<^verbatim>\<open>_provide\<close> that agrees
  with \<open>b\<close> on every attribute that is not a state field) succeeds and gives an instance
  whose \<open>get()\<close> returns what \<open>b.get()\<close> returns. When \<open>B\<close> descends from \<^verbatim>\<open>Provider\<close>
  and \<open>b\<close> has an override \<open>v\<close>, the import into any instance \<open>q\<close> of \<open>B\<close> at all gives
  an instance whose \<open>get()\<close> returns \<open>v\<close>, as \<open>b.get()\<close> does.
\<close>

theorem state_fields_accrete_and_roundtrip:
  assumes B: "B = ProviderClass nameB bases attrs_sf kw_sf"
    and A: "A \<in> set bases"
    and f: "f \<in> set kw_sf \<union> set attrs_sf"
    and b: "STATE_FIELDS b = STATE_FIELDS_of B"
    and st: "Provider_getstate b = Inr st"
    and fresh: "STATE_FIELDS fresh = STATE_FIELDS_of B" "provide fresh = provide b"
       "\<forall>g. g \<notin> set (STATE_FIELDS_of B) \<longrightarrow> attrs fresh g = attrs b g"
  shows "(C \<in> set (ancestors D) \<longrightarrow> set (STATE_FIELDS_of C) \<subseteq> set (STATE_FIELDS_of D))
      \<and> set (STATE_FIELDS_of B)
          = set kw_sf \<union> (\<Union>c\<in>set bases. set (STATE_FIELDS_of c)) \<union> set attrs_sf
      \<and> distinct (STATE_FIELDS_of B)
      \<and> set (STATE_FIELDS_of A) \<union> {f} \<subseteq> dom st
      \<and> dom st = set (STATE_FIELDS_of B)
      \<and> (\<exists>fresh'. Provider_setstate fresh st = (None, fresh')
            \<and> Provider_get fresh' = Provider_get b)
      \<and> (Provider_class \<in> set (ancestors B) \<and> STATE_FIELDS q = STATE_FIELDS_of B
           \<and> attrs b ''_override'' = Some v \<and> \<not> isinstance_SentinelClass v
          \<longrightarrow> Provider_get b = Inr v
              \<and> (\<exists>q'. Provider_setstate q st = (None, q') \<and> Provider_get q' = Inr v))"
proof -
  have c1: "C \<in> set (ancestors D) \<longrightarrow> set (STATE_FIELDS_of C) \<subseteq> set (STATE_FIELDS_of D)"
    using ancestor_STATE_FIELDS_subset by blast
  have c2: "set (STATE_FIELDS_of B) = set kw_sf \<union> (\<Union>c\<in>set bases. set (STATE_FIELDS_of c)) \<union> set attrs_sf"
    by (simp add: B set_ProviderMeta_new)
  have c3: "distinct (STATE_FIELDS_of B)" by (simp add: B ProviderMeta_new_def)
  have dom: "dom st = set (STATE_FIELDS_of B)"
    using Provider_getstate_result(1) [OF st] b by simp
  have vals: "\<forall>g\<in>set (STATE_FIELDS_of B). st g = attrs b g"
    using Provider_getstate_result(2) [OF st] b by simp
  have c4: "set (STATE_FIELDS_of A) \<union> {f} \<subseteq> dom st"
    using A f dom c2 by auto
  from dom fresh(1) have "set (STATE_FIELDS fresh) \<subseteq> dom st" by simp
  then obtain fresh' where s: "setstate_loop fresh (STATE_FIELDS fresh) st = (None, fresh')"
    using setstate_loop_total by blast
  from setstate_loop_result [OF s] have
    r: "STATE_FIELDS fresh' = STATE_FIELDS fresh" "provide fresh' = provide fresh"
       "\<forall>g. g \<notin> set (STATE_FIELDS fresh) \<longrightarrow> attrs fresh' g = attrs fresh g"
       "\<forall>g\<in>set (STATE_FIELDS fresh). attrs fresh' g = st g" by simp_all
  have "attrs fresh' = attrs b"
  proof
    fix g show "attrs fresh' g = attrs b g"
      using r(3,4) fresh(1,3) vals by (cases "g \<in> set (STATE_FIELDS_of B)") auto
  qed
  moreover have "provide fresh' = provide b"
    using r(2) fresh(2) by simp
  ultimately have "Provider_get fresh' = Provider_get b"
    unfolding Provider_get_def getattr_def by (simp cong: sum.case_cong if_cong)
  with s have c6: "\<exists>fresh'. Provider_setstate fresh st = (None, fresh') \<and> Provider_get fresh' = Provider_get b"
    by (simp add: Provider_setstate_def)
  have c7: "Provider_get b = Inr v
              \<and> (\<exists>q'. Provider_setstate q st = (None, q') \<and> Provider_get q' = Inr v)"
    if h: "Provider_class \<in> set (ancestors B) \<and> STATE_FIELDS q = STATE_FIELDS_of B
           \<and> attrs b ''_override'' = Some v \<and> \<not> isinstance_SentinelClass v"
  proof -
    from h have "set (STATE_FIELDS_of Provider_class) \<subseteq> set (STATE_FIELDS_of B)"
      using ancestor_STATE_FIELDS_subset by blast
    then have ov: "''_override'' \<in> set (STATE_FIELDS_of B)"
      by (simp add: Provider_class_def ProviderMeta_new_def)
    with vals h have stv: "st ''_override'' = Some v" by simp
    from h have gb: "Provider_get b = Inr v" by (simp add: Provider_get_def getattr_def)
    from dom h have "set (STATE_FIELDS q) \<subseteq> dom st" by simp
    then obtain q' where sq: "setstate_loop q (STATE_FIELDS q) st = (None, q')"
      using setstate_loop_total by blast
    from setstate_loop_result [OF sq] ov h stv have "attrs q' ''_override'' = Some v" by simp
    with h have "Provider_get q' = Inr v" by (simp add: Provider_get_def getattr_def)
    with sq gb show ?thesis by (simp add: Provider_setstate_def)
  qed
  from c1 c2 c3 c4 dom c6 c7 show ?thesis by blast
qed


theorem state_fields_accrete_and_roundtrip_witness:
  "Provider_class \<in> set (ancestors class_B)
   \<and> set (STATE_FIELDS_of Provider_class) \<subseteq> set (STATE_FIELDS_of class_B)
   \<and> Provider_getstate b_inst = Inr b_state
   \<and> set (STATE_FIELDS_of class_A) \<union> {''ts''} \<subseteq> dom b_state
   \<and> Provider_get b_inst = Inr (VInt 3)
   \<and> (\<exists>fresh'. Provider_setstate b_fresh b_state = (None, fresh')
        \<and> Provider_get fresh' = Inr (VInt 3))
   \<and> Provider_getstate b_set = Inr b_set_state
   \<and> (\<exists>q'. Provider_setstate b_fresh b_set_state = (None, q')
        \<and> Provider_get q' = Inr (VInt 4))"
proof -
  have a: "Provider_class \<in> set (ancestors class_B)"
    by (simp add: class_A_def class_B_def)
  have bst: "Provider_getstate b_inst = Inr b_state"
    by (simp add: Provider_getstate_def b_inst_def b_state_def class_B_def class_A_def
        Provider_class_def ProviderMeta_new_def getattr_def)
  have g: "Provider_get b_inst = Inr (VInt 3)"
    by (simp add: Provider_get_def b_inst_def getattr_def sentinel_def provide_cache_def)
  have o: "\<forall>g. g \<notin> set (STATE_FIELDS_of class_B) \<longrightarrow> attrs b_fresh g = attrs b_inst g"
    by (simp add: b_fresh_def b_inst_def class_B_def class_A_def Provider_class_def
        ProviderMeta_new_def)
  have B: "class_B = ProviderClass ''B'' [class_A] [] [''ts'']" by (simp add: class_B_def)
  have A: "class_A \<in> set [class_A]" by simp
  have f: "''ts'' \<in> set [''ts''] \<union> set []" by simp
  have b: "STATE_FIELDS b_inst = STATE_FIELDS_of class_B" by (simp add: b_inst_def)
  have fr1: "STATE_FIELDS b_fresh = STATE_FIELDS_of class_B" by (simp add: b_fresh_def)
  have fr2: "provide b_fresh = provide b_inst" by (simp add: b_fresh_def b_inst_def)
  note t = state_fields_accrete_and_roundtrip [OF B A f b bst fr1 fr2 o, of Provider_class class_B]
  have bs: "STATE_FIELDS b_set = STATE_FIELDS_of class_B"
    by (simp add: b_set_def b_inst_def Provider_set_def setattr_def)
  have sst: "Provider_getstate b_set = Inr b_set_state"
    by (simp add: Provider_getstate_def b_set_def b_inst_def b_set_state_def class_B_def
        class_A_def Provider_class_def ProviderMeta_new_def getattr_def Provider_set_def
        setattr_def)
  have ov: "attrs b_set ''_override'' = Some (VInt 4) \<and> \<not> isinstance_SentinelClass (VInt 4)"
    by (simp add: b_set_def b_inst_def Provider_set_def setattr_def)
  have self_agree: "\<forall>g. g \<notin> set (STATE_FIELDS_of class_B) \<longrightarrow> attrs b_set g = attrs b_set g"
    by simp
  note u = state_fields_accrete_and_roundtrip [OF B A f bs sst bs refl self_agree,
      of Provider_class class_B b_fresh "VInt 4"]
  from u a fr1 ov have c7: "\<exists>q'. Provider_setstate b_fresh b_set_state = (None, q')
        \<and> Provider_get q' = Inr (VInt 4)"
    by blast
  from t a have c2: "set (STATE_FIELDS_of Provider_class) \<subseteq> set (STATE_FIELDS_of class_B)"
    by blast
  from t have c4: "set (STATE_FIELDS_of class_A) \<union> {''ts''} \<subseteq> dom b_state"
    by blast
  from t g have c6: "\<exists>fresh'. Provider_setstate b_fresh b_state = (None, fresh')
        \<and> Provider_get fresh' = Inr (VInt 3)"
    by simp
  from a c2 bst c4 g c6 sst c7 show ?thesis by blast
qed


section \<open>Properties of \<^verbatim>\<open>sync_container\<close>\<close>

lemma only_state_differs_refl: "only_state_differs Q Q"
  by (simp add: only_state_differs_def)

lemma only_state_differs_trans:
  "only_state_differs Q Q' \<Longrightarrow> only_state_differs Q' Q'' \<Longrightarrow> only_state_differs Q Q''"
  by (simp add: only_state_differs_def)

lemma defaults_written_refl: "defaults_written h h"
  by (simp add: defaults_written_def)

lemma defaults_written_DataObj:
  assumes "defaults_written h h'"
  shows "h' c = Some (DataObj fs d) \<longleftrightarrow> h c = Some (DataObj fs d)"
proof -
  from assms have "h' c = h c \<or> (\<exists>Q Q'. h c = Some (ProviderObj Q) \<and> h' c = Some (ProviderObj Q'))"
    unfolding defaults_written_def by blast
  then show ?thesis by auto
qed

lemma defaults_written_decl_default:
  "defaults_written h h' \<Longrightarrow> decl_default h' a = decl_default h a"
  unfolding decl_default_def by (simp add: defaults_written_DataObj)

lemma defaults_written_trans:
  assumes 1: "defaults_written h h'" and 2: "defaults_written h' h''"
  shows "defaults_written h h''"
  unfolding defaults_written_def
proof
  fix a
  from 1 have A: "h' a = h a \<or> (decl_default h a
            \<and> (\<exists>Q Q'. h a = Some (ProviderObj Q) \<and> h' a = Some (ProviderObj Q')
                  \<and> only_state_differs Q Q'))" unfolding defaults_written_def by blast
  from 2 have B: "h'' a = h' a \<or> (decl_default h' a
            \<and> (\<exists>Q Q'. h' a = Some (ProviderObj Q) \<and> h'' a = Some (ProviderObj Q')
                  \<and> only_state_differs Q Q'))" unfolding defaults_written_def by blast
  have D: "decl_default h' a = decl_default h a" using 1 by (rule defaults_written_decl_default)
  from A B D show "h'' a = h a \<or> (decl_default h a
            \<and> (\<exists>Q Q'. h a = Some (ProviderObj Q) \<and> h'' a = Some (ProviderObj Q')
                  \<and> only_state_differs Q Q'))"
  proof (elim disjE conjE exE)
    assume "h' a = h a" "h'' a = h' a"
    then show ?thesis by simp
  next
    fix Q Q' assume "h' a = h a" "decl_default h' a" "h' a = Some (ProviderObj Q)"
      "h'' a = Some (ProviderObj Q')" "only_state_differs Q Q'"
    with D show ?thesis by metis
  next
    fix Q Q' assume "h'' a = h' a" "decl_default h a" "h a = Some (ProviderObj Q)"
      "h' a = Some (ProviderObj Q')" "only_state_differs Q Q'"
    then show ?thesis by metis
  next
    fix Q Q' R R' assume "decl_default h a" "h a = Some (ProviderObj Q)"
      "h' a = Some (ProviderObj Q')" "only_state_differs Q Q'"
      "h' a = Some (ProviderObj R)" "h'' a = Some (ProviderObj R')" "only_state_differs R R'"
    then show ?thesis using only_state_differs_trans [of Q Q' R']
      by (metis obj.inject(1) option.inject)
  qed
qed

lemma Provider_setstate_only_state:
  "Provider_setstate Q st = (r, Q') \<Longrightarrow> only_state_differs Q Q'"
  unfolding Provider_setstate_def only_state_differs_def
  by (drule setstate_loop_result) simp

lemma isinstance_ProviderD:
  "isinstance_Provider h src \<Longrightarrow> \<exists>a Q. src = VRef a \<and> h a = Some (ProviderObj Q)"
  by (cases src) (auto split: option.splits obj.splits)

lemma Provider_setstate_arg_only_state:
  "Provider_setstate_arg Q st = (r, Q') \<Longrightarrow> only_state_differs Q Q'"
proof (cases st)
  case None
  assume "Provider_setstate_arg Q st = (r, Q')"
  with None have "Q' = Q"
    by (auto simp: Provider_setstate_arg_def setstate_None_def split: list.splits)
  then show ?thesis by (simp add: only_state_differs_refl)
next
  case (Some d)
  assume "Provider_setstate_arg Q st = (r, Q')"
  with Some have "Provider_setstate Q d = (r, Q')" by (simp add: Provider_setstate_arg_def)
  then show ?thesis by (rule Provider_setstate_only_state)
qed

lemma upd_Provider_written:
  assumes "h a = Some (ProviderObj Q)" and "only_state_differs Q Q'" and "decl_default h a"
  shows "defaults_written h (h(a \<mapsto> ProviderObj Q'))"
  using assms unfolding defaults_written_def by auto

lemma call_setstate_written:
  assumes "call_setstate h (VRef a) st = (r, h')" and "decl_default h a"
  shows "defaults_written h h'"
proof (cases "h a")
  case None
  with assms show ?thesis by (simp add: defaults_written_refl)
next
  case (Some ob)
  show ?thesis
  proof (cases ob)
    case (ProviderObj Q)
    obtain r' Q' where s: "Provider_setstate_arg Q st = (r', Q')"
      by (cases "Provider_setstate_arg Q st")
    with assms Some ProviderObj have h': "h' = h(a \<mapsto> ProviderObj Q')" by simp
    from s have "only_state_differs Q Q'" by (rule Provider_setstate_arg_only_state)
    with h' Some ProviderObj assms(2) show ?thesis
      unfolding defaults_written_def by auto
  next
    case (DataObj fs d)
    with assms Some show ?thesis by (simp add: defaults_written_refl)
  next
    case (OtherObj d)
    with assms Some show ?thesis by (simp add: defaults_written_refl)
  qed
qed

lemma sync_fields_written:
  assumes P: "\<And>from_c to_c h r h'. sync_container n from_c to_c h = (r, h') \<Longrightarrow> defaults_written h h'"
  shows "sync_fields n from_c fs h = (r, h') \<Longrightarrow>
         (\<forall>name a. (name, VRef a) \<in> set fs \<longrightarrow> decl_default h a) \<Longrightarrow> defaults_written h h'"
proof (induction fs arbitrary: h)
  case Nil
  then show ?case by (simp add: defaults_written_refl)
next
  case (Cons fld fs)
  obtain name src where fld: "fld = (name, src)" by (cases fld)
  let ?target = "getattr_or_None h from_c name"
  have dd: "\<forall>name a. (name, VRef a) \<in> set fs \<longrightarrow> decl_default h a"
    using Cons.prems(2) by auto
  have tail: "\<And>h1. defaults_written h h1 \<Longrightarrow> sync_fields n from_c fs h1 = (r, h') \<Longrightarrow> defaults_written h h'"
  proof -
    fix h1 assume w: "defaults_written h h1" and s: "sync_fields n from_c fs h1 = (r, h')"
    from dd w have "\<forall>name a. (name, VRef a) \<in> set fs \<longrightarrow> decl_default h1 a"
      by (simp add: defaults_written_decl_default)
    from Cons.IH [OF s this] w show "defaults_written h h'" by (rule defaults_written_trans [rotated])
  qed
  show ?case
  proof (cases "?target = VNone")
    case True
    with Cons.prems(1) fld have "sync_fields n from_c fs h = (r, h')" by simp
    then show ?thesis by (rule tail [OF defaults_written_refl])
  next
    case notNone: False
    show ?thesis
    proof (cases "isinstance_Provider h src")
      case True
      then obtain a Q where src: "src = VRef a" "h a = Some (ProviderObj Q)"
        using isinstance_ProviderD by blast
      from Cons.prems(2) fld src have da: "decl_default h a" by auto
      show ?thesis
      proof (cases "call_getstate h ?target")
        case (Inl e)
        with Cons.prems(1) fld notNone True show ?thesis by (simp add: defaults_written_refl)
      next
        case (Inr st)
        obtain r1 h1 where cs: "call_setstate h (VRef a) st = (r1, h1)"
          by (cases "call_setstate h (VRef a) st")
        from cs da have w: "defaults_written h h1" by (rule call_setstate_written)
        show ?thesis
        proof (cases r1)
          case None
          with Cons.prems(1) fld notNone True Inr cs src
          have "sync_fields n from_c fs h1 = (r, h')" by simp
          with w show ?thesis by (rule tail)
        next
          case (Some e)
          with Cons.prems(1) fld notNone True Inr cs src have "h' = h1" by simp
          with w show ?thesis by simp
        qed
      qed
    next
      case notProv: False
      show ?thesis
      proof (cases "is_dataclass h src")
        case True
        obtain r1 h1 where sc: "sync_container n src ?target h = (r1, h1)"
          by (cases "sync_container n src ?target h")
        from sc have w: "defaults_written h h1" by (rule P)
        show ?thesis
        proof (cases r1)
          case None
          with Cons.prems(1) fld notNone notProv True sc
          have "sync_fields n from_c fs h1 = (r, h')" by simp
          with w show ?thesis by (rule tail)
        next
          case (Some e)
          with Cons.prems(1) fld notNone notProv True sc have "h' = h1" by simp
          with w show ?thesis by simp
        qed
      next
        case False
        with Cons.prems(1) fld notNone notProv have "sync_fields n from_c fs h = (r, h')" by simp
        then show ?thesis by (rule tail [OF defaults_written_refl])
      qed
    qed
  qed
qed

lemma dataclasses_fieldsD:
  "dataclasses_fields h to_c = Inr fs \<Longrightarrow> \<exists>c d. to_c = VRef c \<and> h c = Some (DataObj fs d)"
  by (cases to_c) (auto split: option.splits obj.splits)

lemma sync_container_written:
  "sync_container n from_c to_c h = (r, h') \<Longrightarrow> defaults_written h h'"
proof (induction n arbitrary: from_c to_c h r h')
  case 0
  then show ?case by (simp add: defaults_written_refl)
next
  case (Suc n)
  show ?case
  proof (cases "dataclasses_fields h to_c")
    case (Inl e)
    with Suc.prems show ?thesis by (simp add: defaults_written_refl)
  next
    case (Inr fs)
    then obtain c d where c: "to_c = VRef c" "h c = Some (DataObj fs d)"
      using dataclasses_fieldsD by blast
    then have dd: "\<forall>name a. (name, VRef a) \<in> set fs \<longrightarrow> decl_default h a"
      unfolding decl_default_def by blast
    from Suc.prems Inr have "sync_fields n from_c fs h = (r, h')" by simp
    from sync_fields_written [OF Suc.IH this dd] show ?thesis .
  qed
qed


lemma setstate_loop_keys:
  "setstate_loop self fs st = (None, self') \<Longrightarrow> set fs \<subseteq> dom st"
proof (induction fs arbitrary: self)
  case Nil
  then show ?case by simp
next
  case (Cons g fs)
  then show ?case by (cases "st g") auto
qed

lemma defaults_written_obj:
  assumes "defaults_written h h'"
  shows "h' a = h a \<or> (\<exists>Q Q'. h a = Some (ProviderObj Q) \<and> h' a = Some (ProviderObj Q'))"
  using assms unfolding defaults_written_def by blast

lemma defaults_written_is_dataclass:
  assumes "defaults_written h h'"
  shows "is_dataclass h' v = is_dataclass h v"
proof (cases v)
  case (VRef a)
  from defaults_written_obj [OF assms, of a] VRef show ?thesis by auto
qed simp_all

lemma defaults_written_isinstance_Provider:
  assumes "defaults_written h h'"
  shows "isinstance_Provider h' v = isinstance_Provider h v"
proof (cases v)
  case (VRef a)
  from defaults_written_obj [OF assms, of a] VRef show ?thesis by auto
qed simp_all

lemma defaults_written_fields:
  assumes "defaults_written h h'"
  shows "dataclasses_fields h' v = dataclasses_fields h v"
proof (cases v)
  case (VRef a)
  from defaults_written_obj [OF assms, of a] VRef show ?thesis by auto
qed simp_all

lemma defaults_written_getattr:
  assumes "defaults_written h h'" and "h c = Some (DataObj fs d)"
  shows "getattr_or_None h' (VRef c) name = getattr_or_None h (VRef c) name"
proof -
  from assms have "h' c = Some (DataObj fs d)" by (simp add: defaults_written_DataObj)
  with assms(2) show ?thesis by simp
qed

lemma defaults_written_nested_default:
  assumes "defaults_written h h'"
  shows "nested_default h' a = nested_default h a"
proof
  assume "nested_default h' a"
  then obtain c fs d name c' fs' d' name' where
    n: "h' c = Some (DataObj fs d)" "(name, VRef a) \<in> set fs"
       "h' c' = Some (DataObj fs' d')" "getattr_or_None h' (VRef c') name' = VRef c"
    unfolding nested_default_def by blast
  from n(1,3) assms have o: "h c = Some (DataObj fs d)" "h c' = Some (DataObj fs' d')"
    by (simp_all add: defaults_written_DataObj)
  from defaults_written_getattr [OF assms o(2)] n(4)
  have "getattr_or_None h (VRef c') name' = VRef c" by simp
  with o n(2) show "nested_default h a" unfolding nested_default_def by blast
next
  assume "nested_default h a"
  then obtain c fs d name c' fs' d' name' where
    n: "h c = Some (DataObj fs d)" "(name, VRef a) \<in> set fs"
       "h c' = Some (DataObj fs' d')" "getattr_or_None h (VRef c') name' = VRef c"
    unfolding nested_default_def by blast
  from n(1,3) assms have o: "h' c = Some (DataObj fs d)" "h' c' = Some (DataObj fs' d')"
    by (simp_all add: defaults_written_DataObj)
  from defaults_written_getattr [OF assms n(3)] n(4)
  have "getattr_or_None h' (VRef c') name' = VRef c" by simp
  with o n(2) show "nested_default h' a" unfolding nested_default_def by blast
qed

lemma defaults_written_has_nested:
  assumes "defaults_written h h'"
  shows "has_nested h' fs = has_nested h fs"
  unfolding has_nested_def defaults_written_is_dataclass [OF assms] ..

lemma is_dataclassD:
  "is_dataclass h src \<Longrightarrow> \<exists>s sfs sd. src = VRef s \<and> h s = Some (DataObj sfs sd)"
  by (cases src) (auto split: option.splits obj.splits)

text \<open>What one round of the loop of \<open>sync_fields\<close> does.\<close>

lemma sync_fields_Cons_cases:
  assumes "sync_fields n from_c ((name, src) # fs) h = (r, h')"
  obtains
    (skip) "sync_fields n from_c fs h = (r, h')"
      "getattr_or_None h from_c name = VNone
       \<or> (\<not> isinstance_Provider h src \<and> \<not> is_dataclass h src)"
  | (getstate_fails) e where "h' = h" "r = Some e"
      "getattr_or_None h from_c name \<noteq> VNone" "isinstance_Provider h src"
  | (import_fails) a Q st Q1 e where "getattr_or_None h from_c name \<noteq> VNone"
      "src = VRef a" "h a = Some (ProviderObj Q)"
      "call_getstate h (getattr_or_None h from_c name) = Inr st"
      "Provider_setstate_arg Q st = (Some e, Q1)" "h' = h(a \<mapsto> ProviderObj Q1)"
      "r = Some e"
  | (imported) a Q st Q1 where "getattr_or_None h from_c name \<noteq> VNone"
      "src = VRef a" "h a = Some (ProviderObj Q)"
      "call_getstate h (getattr_or_None h from_c name) = Inr st"
      "Provider_setstate_arg Q st = (None, Q1)"
      "sync_fields n from_c fs (h(a \<mapsto> ProviderObj Q1)) = (r, h')"
  | (nested_fails) e where "getattr_or_None h from_c name \<noteq> VNone"
      "\<not> isinstance_Provider h src" "is_dataclass h src"
      "sync_container n src (getattr_or_None h from_c name) h = (Some e, h')" "r = Some e"
  | (nested) h1 where "getattr_or_None h from_c name \<noteq> VNone"
      "\<not> isinstance_Provider h src" "is_dataclass h src"
      "sync_container n src (getattr_or_None h from_c name) h = (None, h1)"
      "sync_fields n from_c fs h1 = (r, h')"
proof (cases "getattr_or_None h from_c name = VNone")
  case True
  with assms have "sync_fields n from_c fs h = (r, h')" by simp
  with True show ?thesis by (simp add: skip)
next
  case notNone: False
  show ?thesis
  proof (cases "isinstance_Provider h src")
    case True
    then obtain a Q where src: "src = VRef a" "h a = Some (ProviderObj Q)"
      using isinstance_ProviderD by blast
    show ?thesis
    proof (cases "call_getstate h (getattr_or_None h from_c name)")
      case (Inl e)
      with assms notNone True have "h' = h" "r = Some e" by auto
      with notNone True show ?thesis by (simp add: getstate_fails)
    next
      case (Inr st)
      obtain r1 Q1 where q1: "Provider_setstate_arg Q st = (r1, Q1)"
        by (cases "Provider_setstate_arg Q st")
      show ?thesis
      proof (cases r1)
        case None
        with assms notNone True Inr src q1
        have "sync_fields n from_c fs (h(a \<mapsto> ProviderObj Q1)) = (r, h')" by simp
        with notNone src Inr q1 None show ?thesis by (simp add: imported)
      next
        case (Some e)
        with assms notNone True Inr src q1 have "h' = h(a \<mapsto> ProviderObj Q1)" "r = Some e"
          by auto
        with notNone src Inr q1 Some show ?thesis by (simp add: import_fails)
      qed
    qed
  next
    case notProv: False
    show ?thesis
    proof (cases "is_dataclass h src")
      case False
      with assms notNone notProv have "sync_fields n from_c fs h = (r, h')" by simp
      with notProv False show ?thesis by (simp add: skip)
    next
      case True
      obtain r1 h1 where sc: "sync_container n src (getattr_or_None h from_c name) h = (r1, h1)"
        by (cases "sync_container n src (getattr_or_None h from_c name) h")
      show ?thesis
      proof (cases r1)
        case None
        with assms notNone notProv True sc have "sync_fields n from_c fs h1 = (r, h')" by simp
        with notNone notProv True sc None show ?thesis by (simp add: nested)
      next
        case (Some e)
        with assms notNone notProv True sc have "h' = h1" "r = Some e" by auto
        with notNone notProv True sc Some show ?thesis by (simp add: nested_fails)
      qed
    qed
  qed
qed


lemma nested_default_of_target:
  assumes "h fr = Some (DataObj ffs fd)"
    and "dataclasses_fields h (getattr_or_None h (VRef fr) name) = Inr fs"
    and "field_default fs a"
  shows "nested_default h a"
proof -
  from assms(2) obtain c d where
    c: "getattr_or_None h (VRef fr) name = VRef c" "h c = Some (DataObj fs d)"
    using dataclasses_fieldsD by blast
  from assms(3) obtain nm where "(nm, VRef a) \<in> set fs" unfolding field_default_def by blast
  with c assms(1) show ?thesis unfolding nested_default_def by blast
qed

lemma sync_fields_frame_step:
  assumes C: "\<And>s sfs sd to_c h r h' a.
      h s = Some (DataObj sfs sd) \<Longrightarrow> sync_container n (VRef s) to_c h = (r, h') \<Longrightarrow>
      h' a \<noteq> h a \<Longrightarrow>
      \<exists>fs. dataclasses_fields h to_c = Inr fs
        \<and> (field_default fs a \<or> (has_nested h fs \<and> nested_default h a))"
  shows "sync_fields n (VRef fr) fs h = (r, h') \<Longrightarrow> h fr = Some (DataObj ffs fd) \<Longrightarrow>
         (\<forall>name a. (name, VRef a) \<in> set fs \<longrightarrow> decl_default h a) \<Longrightarrow> h' a \<noteq> h a \<Longrightarrow>
         field_default fs a \<or> (has_nested h fs \<and> nested_default h a)"
proof (induction fs arbitrary: h)
  case Nil
  then show ?case by simp
next
  case (Cons fld fs)
  obtain name src where fld: "fld = (name, src)" by (cases fld)
  let ?target = "getattr_or_None h (VRef fr) name"
  let ?goal = "field_default (fld # fs) a \<or> (has_nested h (fld # fs) \<and> nested_default h a)"
  have dd: "\<forall>name a. (name, VRef a) \<in> set fs \<longrightarrow> decl_default h a"
    using Cons.prems(3) by auto
  have mono: "field_default fs a \<or> (has_nested h fs \<and> nested_default h a) \<Longrightarrow> ?goal"
    unfolding field_default_def has_nested_def by auto
  have tailI: "?goal" if w: "defaults_written h h1"
    and t: "sync_fields n (VRef fr) fs h1 = (r, h')" and ne: "h' a \<noteq> h1 a" for h1
  proof -
    from w Cons.prems(2) have fr1: "h1 fr = Some (DataObj ffs fd)"
      by (simp add: defaults_written_DataObj)
    from w dd have dd1: "\<forall>name a. (name, VRef a) \<in> set fs \<longrightarrow> decl_default h1 a"
      by (simp add: defaults_written_decl_default)
    from Cons.IH [OF t fr1 dd1 ne]
    have "field_default fs a \<or> (has_nested h1 fs \<and> nested_default h1 a)" .
    with w have "field_default fs a \<or> (has_nested h fs \<and> nested_default h a)"
      by (simp add: defaults_written_has_nested defaults_written_nested_default)
    then show ?thesis by (rule mono)
  qed
  have nestedI: "?goal" if dc: "is_dataclass h src"
    and sc: "sync_container n src ?target h = (r1, h1)" and ne: "h1 a \<noteq> h a" for r1 h1
  proof -
    from dc obtain s sfs sd where s: "src = VRef s" "h s = Some (DataObj sfs sd)"
      using is_dataclassD by blast
    from C [OF s(2) sc [unfolded s(1)] ne] obtain fs_t where
      ft: "dataclasses_fields h ?target = Inr fs_t"
      and w: "field_default fs_t a \<or> (has_nested h fs_t \<and> nested_default h a)" by blast
    from w nested_default_of_target [OF Cons.prems(2) ft] have "nested_default h a" by blast
    moreover from dc fld have "has_nested h (fld # fs)" unfolding has_nested_def by auto
    ultimately show ?thesis by blast
  qed
  from Cons.prems(1) [unfolded fld] show ?case
  proof (cases rule: sync_fields_Cons_cases)
    case skip
    from tailI [OF defaults_written_refl skip(1) Cons.prems(4)] show ?thesis .
  next
    case (getstate_fails e)
    with Cons.prems(4) show ?thesis by simp
  next
    case (import_fails a0 Q st Q1 e)
    with Cons.prems(4) have "a = a0" by (auto split: if_splits)
    with import_fails(2) fld show ?thesis unfolding field_default_def by auto
  next
    case (imported a0 Q st Q1)
    from Cons.prems(3) fld imported(2) have da: "decl_default h a0" by auto
    from imported(5) have os: "only_state_differs Q Q1"
      by (rule Provider_setstate_arg_only_state)
    from imported(3) os da have w: "defaults_written h (h(a0 \<mapsto> ProviderObj Q1))"
      by (rule upd_Provider_written)
    show ?thesis
    proof (cases "h' a = (h(a0 \<mapsto> ProviderObj Q1)) a")
      case True
      with Cons.prems(4) have "a = a0" by (auto split: if_splits)
      with imported(2) fld show ?thesis unfolding field_default_def by auto
    next
      case False
      from tailI [OF w imported(6) False] show ?thesis .
    qed
  next
    case (nested_fails e)
    from nestedI [OF nested_fails(3) nested_fails(4) Cons.prems(4)] show ?thesis .
  next
    case (nested h1)
    from nested(4) have w: "defaults_written h h1" by (rule sync_container_written)
    show ?thesis
    proof (cases "h' a = h1 a")
      case True
      with Cons.prems(4) have "h1 a \<noteq> h a" by simp
      from nestedI [OF nested(3) nested(4) this] show ?thesis .
    next
      case False
      from tailI [OF w nested(5) False] show ?thesis .
    qed
  qed
qed

lemma sync_container_frame:
  "h s = Some (DataObj sfs sd) \<Longrightarrow> sync_container n (VRef s) to_c h = (r, h') \<Longrightarrow>
   h' a \<noteq> h a \<Longrightarrow>
   \<exists>fs. dataclasses_fields h to_c = Inr fs
     \<and> (field_default fs a \<or> (has_nested h fs \<and> nested_default h a))"
proof (induction n arbitrary: s sfs sd to_c h r h' a)
  case 0
  then show ?case by simp
next
  case (Suc n)
  show ?case
  proof (cases "dataclasses_fields h to_c")
    case (Inl e)
    with Suc.prems show ?thesis by simp
  next
    case (Inr fs)
    then obtain c d where c: "to_c = VRef c" "h c = Some (DataObj fs d)"
      using dataclasses_fieldsD by blast
    then have dd: "\<forall>name a. (name, VRef a) \<in> set fs \<longrightarrow> decl_default h a"
      unfolding decl_default_def by blast
    from Suc.prems(2) Inr have sf: "sync_fields n (VRef s) fs h = (r, h')" by simp
    have C: "\<exists>fs. dataclasses_fields h to_c = Inr fs
        \<and> (field_default fs a \<or> (has_nested h fs \<and> nested_default h a))"
      if "h s = Some (DataObj sfs sd)" "sync_container n (VRef s) to_c h = (r, h')"
        "h' a \<noteq> h a" for s sfs sd to_c h r h' a
      using that by (rule Suc.IH)
    have "field_default fs a \<or> (has_nested h fs \<and> nested_default h a)"
      using C sf Suc.prems(1) dd Suc.prems(3) by (rule sync_fields_frame_step)
    with Inr show ?thesis by blast
  qed
qed

lemma sync_fields_frame:
  "sync_fields n (VRef fr) fs h = (r, h') \<Longrightarrow> h fr = Some (DataObj ffs fd) \<Longrightarrow>
   (\<forall>name a. (name, VRef a) \<in> set fs \<longrightarrow> decl_default h a) \<Longrightarrow> h' a \<noteq> h a \<Longrightarrow>
   field_default fs a \<or> (has_nested h fs \<and> nested_default h a)"
  using sync_container_frame by (rule sync_fields_frame_step)


lemma Provider_setstate_imports:
  assumes "Provider_setstate Q st = (None, Q1)"
  shows "only_state_differs Q Q1" and "\<forall>f\<in>set (STATE_FIELDS Q). attrs Q1 f = st f"
proof -
  from assms show "only_state_differs Q Q1" by (rule Provider_setstate_only_state)
  from assms have "setstate_loop Q (STATE_FIELDS Q) st = (None, Q1)"
    by (simp add: Provider_setstate_def)
  from setstate_loop_result [OF this] show "\<forall>f\<in>set (STATE_FIELDS Q). attrs Q1 f = st f" by simp
qed

lemma nested_call_frame:
  assumes "h fr = Some (DataObj ffs fd)" and "is_dataclass h src"
    and "sync_container n src (getattr_or_None h (VRef fr) name) h = (r1, hn)"
    and "hn a \<noteq> h a"
  shows "nested_default h a"
proof -
  from assms(2) obtain s sfs sd where s: "src = VRef s" "h s = Some (DataObj sfs sd)"
    using is_dataclassD by blast
  from sync_container_frame [OF s(2) assms(3) [unfolded s(1)] assms(4)] obtain fs_t where
    ft: "dataclasses_fields h (getattr_or_None h (VRef fr) name) = Inr fs_t"
    and w: "field_default fs_t a \<or> (has_nested h fs_t \<and> nested_default h a)" by blast
  from w nested_default_of_target [OF assms(1) ft] show ?thesis by blast
qed

lemma sync_fields_target:
  "sync_fields n (VRef fr) fs h = (None, h') \<Longrightarrow> h fr = Some (DataObj ffs fd) \<Longrightarrow>
   (\<forall>nm a. (nm, VRef a) \<in> set fs \<longrightarrow> decl_default h a) \<Longrightarrow>
   distinct (map fst fs) \<Longrightarrow> (name, VRef q) \<in> set fs \<Longrightarrow>
   (\<forall>nm. (nm, VRef q) \<in> set fs \<longrightarrow> nm = name) \<Longrightarrow>
   (has_nested h fs \<longrightarrow> \<not> nested_default h q) \<Longrightarrow>
   h q = Some (ProviderObj Q) \<Longrightarrow>
   getattr_or_None h (VRef fr) name = VRef p \<Longrightarrow> h p = Some (ProviderObj P) \<Longrightarrow>
   p = q \<or> (\<not> field_default fs p \<and> (has_nested h fs \<longrightarrow> \<not> nested_default h p)) \<Longrightarrow>
   \<exists>Q'. h' q = Some (ProviderObj Q') \<and> only_state_differs Q Q'
        \<and> (\<forall>f\<in>set (STATE_FIELDS Q). attrs Q' f = attrs P f)"
proof (induction fs arbitrary: h)
  case Nil
  then show ?case by simp
next
  case (Cons fld fs)
  obtain nm0 src where fld: "fld = (nm0, src)" by (cases fld)
  note run = Cons.prems(1) [unfolded fld]
  note fr = Cons.prems(2)
  note hq = Cons.prems(8) and ga = Cons.prems(9) and hp = Cons.prems(10)
  have dd: "\<forall>nm a. (nm, VRef a) \<in> set fs \<longrightarrow> decl_default h a"
    using Cons.prems(3) by auto
  from Cons.prems(4) fld have dist: "distinct (map fst fs)" and nm0: "nm0 \<notin> fst ` set fs"
    by auto
  have hn_mono: "has_nested h fs \<Longrightarrow> has_nested h (fld # fs)"
    unfolding has_nested_def by auto
  from Cons.prems(7) hn_mono have nq: "has_nested h fs \<longrightarrow> \<not> nested_default h q" by blast
  from Cons.prems(11) hn_mono
  have pp: "p = q \<or> (\<not> field_default fs p \<and> (has_nested h fs \<longrightarrow> \<not> nested_default h p))"
    unfolding field_default_def by auto
  show ?case
  proof (cases "nm0 = name")
    case True
    from True nm0 Cons.prems(6) have notin: "\<not> field_default fs q"
      unfolding field_default_def by (metis fst_conv image_eqI list.set_intros(2))
    from True Cons.prems(5) fld nm0 have src: "src = VRef q"
      by (metis fst_conv image_eqI set_ConsD prod.inject)
    have tp: "getattr_or_None h (VRef fr) nm0 = VRef p" using True ga by simp
    have ip: "isinstance_Provider h src" using src hq by simp
    from run show ?thesis
    proof (cases rule: sync_fields_Cons_cases)
      case skip
      with tp ip show ?thesis by simp
    next
      case (getstate_fails e)
      then show ?thesis by simp
    next
      case (import_fails a0 Q0 st Q1 e)
      then show ?thesis by simp
    next
      case (imported a0 Q0 st Q1)
      from imported(2,3) src hq have a0: "a0 = q" "Q0 = Q" by simp_all
      from imported(4) tp hp obtain d where d: "st = Some d" "Provider_getstate P = Inr d"
        by (auto split: sum.splits)
      from imported(5) d a0 have q1: "Provider_setstate Q d = (None, Q1)"
        by (simp add: Provider_setstate_arg_def)
      let ?h1 = "h(q \<mapsto> ProviderObj Q1)"
      from Provider_setstate_imports [OF q1] have
        o: "only_state_differs Q Q1" and i: "\<forall>f\<in>set (STATE_FIELDS Q). attrs Q1 f = d f"
        by simp_all
      from Cons.prems(3) fld src have "decl_default h q" by auto
      with hq o have w: "defaults_written h ?h1" by (rule upd_Provider_written)
      from fr hq have "fr \<noteq> q" by auto
      with fr have fr1: "?h1 fr = Some (DataObj ffs fd)" by simp
      from w dd have dd1: "\<forall>nm a. (nm, VRef a) \<in> set fs \<longrightarrow> decl_default ?h1 a"
        by (simp add: defaults_written_decl_default)
      from imported(6) a0 have t: "sync_fields n (VRef fr) fs ?h1 = (None, h')" by simp
      have "h' q = ?h1 q"
      proof (rule ccontr)
        assume "h' q \<noteq> ?h1 q"
        from sync_fields_frame [OF t fr1 dd1 this]
        have "field_default fs q \<or> (has_nested ?h1 fs \<and> nested_default ?h1 q)" .
        with w have "field_default fs q \<or> (has_nested h fs \<and> nested_default h q)"
          by (simp add: defaults_written_has_nested defaults_written_nested_default)
        with notin nq show False by blast
      qed
      then have hq': "h' q = Some (ProviderObj Q1)" by simp
      from Provider_getstate_result(2) [OF d(2)] Provider_getstate_result(1) [OF d(2)]
      have pst: "\<forall>f\<in>set (STATE_FIELDS P). d f = attrs P f" "dom d = set (STATE_FIELDS P)"
        by simp_all
      from q1 have sub: "set (STATE_FIELDS Q) \<subseteq> dom d"
        unfolding Provider_setstate_def by (rule setstate_loop_keys)
      with pst have "\<forall>f\<in>set (STATE_FIELDS Q). d f = attrs P f" by auto
      with hq' o i show ?thesis by auto
    next
      case (nested_fails e)
      with ip show ?thesis by simp
    next
      case (nested h1)
      with ip show ?thesis by simp
    qed
  next
    case False
    with Cons.prems(5) fld have inn: "(name, VRef q) \<in> set fs" by auto
    from Cons.prems(6) have uniq: "\<forall>nm. (nm, VRef q) \<in> set fs \<longrightarrow> nm = name" by auto
    from False Cons.prems(6) fld have srcq: "src \<noteq> VRef q" by auto
    from Cons.prems(11) fld have srcp: "p = q \<or> src \<noteq> VRef p"
      unfolding field_default_def by auto
    have tailI: ?thesis if w: "defaults_written h h1"
      and t: "sync_fields n (VRef fr) fs h1 = (None, h')"
      and q1: "h1 q = h q" and p1: "h1 p = h p" for h1
    proof -
      from w fr have fr1: "h1 fr = Some (DataObj ffs fd)" by (simp add: defaults_written_DataObj)
      from w dd have dd1: "\<forall>nm a. (nm, VRef a) \<in> set fs \<longrightarrow> decl_default h1 a"
        by (simp add: defaults_written_decl_default)
      from w nq have nq1: "has_nested h1 fs \<longrightarrow> \<not> nested_default h1 q"
        by (simp add: defaults_written_has_nested defaults_written_nested_default)
      from w pp have pp1: "p = q \<or> (\<not> field_default fs p
            \<and> (has_nested h1 fs \<longrightarrow> \<not> nested_default h1 p))"
        by (simp add: defaults_written_has_nested defaults_written_nested_default)
      from q1 hq have hq1: "h1 q = Some (ProviderObj Q)" by simp
      from p1 hp have hp1: "h1 p = Some (ProviderObj P)" by simp
      from defaults_written_getattr [OF w fr] ga
      have ga1: "getattr_or_None h1 (VRef fr) name = VRef p" by simp
      from Cons.IH [OF t fr1 dd1 dist inn uniq nq1 hq1 ga1 hp1 pp1] show ?thesis .
    qed
    from run show ?thesis
    proof (cases rule: sync_fields_Cons_cases)
      case skip
      from tailI [OF defaults_written_refl skip(1)] show ?thesis by simp
    next
      case (getstate_fails e)
      then show ?thesis by simp
    next
      case (import_fails a0 Q0 st Q1 e)
      then show ?thesis by simp
    next
      case (imported a0 Q0 st Q1)
      from Cons.prems(3) fld imported(2) have da: "decl_default h a0" by auto
      from imported(5) have os: "only_state_differs Q0 Q1"
        by (rule Provider_setstate_arg_only_state)
      from imported(3) os da have w: "defaults_written h (h(a0 \<mapsto> ProviderObj Q1))"
        by (rule upd_Provider_written)
      from imported(2) srcq have aq: "a0 \<noteq> q" by simp
      from imported(2) srcp aq have ap: "a0 \<noteq> p" by auto
      from tailI [OF w imported(6)] aq ap show ?thesis by simp
    next
      case (nested_fails e)
      then show ?thesis by simp
    next
      case (nested h1)
      from nested(4) have w: "defaults_written h h1" by (rule sync_container_written)
      from nested(3) fld have hn: "has_nested h (fld # fs)" unfolding has_nested_def by auto
      note nf = nested_call_frame [OF fr nested(3) nested(4)]
      from hn Cons.prems(7) nf [of q] have q1: "h1 q = h q" by blast
      from hn Cons.prems(11) nf [of p] q1 have p1: "h1 p = h p" by blast
      from tailI [OF w nested(5) q1 p1] show ?thesis .
    qed
  qed
qed

lemma P7_state: "Provider_getstate P7 = Inr [''_override'' \<mapsto> VInt 7]"
  by (simp add: Provider_getstate_def P7_def P0_def Provider_set_def Provider_init_def
      Provider_class_def ProviderMeta_new_def getattr_def setattr_def)

lemma P0_import: "Provider_setstate P0 [''_override'' \<mapsto> VInt 7] = (None, P7)"
  by (simp add: Provider_setstate_def P7_def P0_def Provider_set_def Provider_init_def
      Provider_class_def ProviderMeta_new_def setattr_def)

lemma sync_h2: "sync_container 2 (VRef 31) (VRef 30) h2 = (None, h2(21 \<mapsto> ProviderObj P7))"
proof -
  have f: "dataclasses_fields h2 (VRef 30) = Inr [(''p'', VRef 21)]"
    by (simp add: h2_def decl_fields_def)
  have t: "getattr_or_None h2 (VRef 31) ''p'' = VRef 22" by (simp add: h2_def)
  have i: "isinstance_Provider h2 (VRef 21)" by (simp add: h2_def)
  have g: "call_getstate h2 (VRef 22) = Inr (Some [''_override'' \<mapsto> VInt 7])"
    by (simp add: h2_def P7_state)
  have s: "call_setstate h2 (VRef 21) (Some [''_override'' \<mapsto> VInt 7])
             = (None, h2(21 \<mapsto> ProviderObj P7))"
    by (simp add: h2_def P0_import Provider_setstate_arg_def)
  have "sync_container (Suc (Suc 0)) (VRef 31) (VRef 30) h2 = (None, h2(21 \<mapsto> ProviderObj P7))"
    by (simp add: f t i g s del: dataclasses_fields.simps getattr_or_None.simps
        isinstance_Provider.simps call_getstate.simps call_setstate.simps)
  then show ?thesis by (simp only: numeral_2_eq_2)
qed

lemma P0_state: "Provider_getstate P0 = Inr [''_override'' \<mapsto> sentinel]"
  by (simp add: Provider_getstate_def P0_def Provider_init_def
      Provider_class_def ProviderMeta_new_def getattr_def)

lemma P0_import_self: "Provider_setstate P0 [''_override'' \<mapsto> sentinel] = (None, P0)"
  by (simp add: Provider_setstate_def P0_def Provider_init_def
      Provider_class_def ProviderMeta_new_def setattr_def)

lemma sync_h3: "sync_container 3 (VRef 71) (VRef 70) h3 = (None, h3(51 \<mapsto> ProviderObj P7))"
proof -
  let ?ha = "h3(51 \<mapsto> ProviderObj P7)"
  have f: "dataclasses_fields h3 (VRef 70) = Inr [(''p'', VRef 51), (''sub'', VRef 60)]"
    by (simp add: h3_def nested_fields_def)
  have t1: "getattr_or_None h3 (VRef 71) ''p'' = VRef 52" by (simp add: h3_def)
  have i1: "isinstance_Provider h3 (VRef 51)" by (simp add: h3_def)
  have g1: "call_getstate h3 (VRef 52) = Inr (Some [''_override'' \<mapsto> VInt 7])"
    by (simp add: h3_def P7_state)
  have s1: "call_setstate h3 (VRef 51) (Some [''_override'' \<mapsto> VInt 7]) = (None, ?ha)"
    by (simp add: h3_def P0_import Provider_setstate_arg_def)
  have t2: "getattr_or_None ?ha (VRef 71) ''sub'' = VRef 61" by (simp add: h3_def)
  have i2: "\<not> isinstance_Provider ?ha (VRef 60)" by (simp add: h3_def)
  have d2: "is_dataclass ?ha (VRef 60)" by (simp add: h3_def)
  have f2: "dataclasses_fields ?ha (VRef 61) = Inr [(''q'', VRef 54)]"
    by (simp add: h3_def sub_fields_def)
  have t3: "getattr_or_None ?ha (VRef 60) ''q'' = VRef 54" by (simp add: h3_def)
  have i3: "isinstance_Provider ?ha (VRef 54)" by (simp add: h3_def)
  have g3: "call_getstate ?ha (VRef 54) = Inr (Some [''_override'' \<mapsto> sentinel])"
    by (simp add: h3_def P0_state)
  have "?ha(54 \<mapsto> ProviderObj P0) = ?ha" by (rule ext) (simp add: h3_def)
  then have s3: "call_setstate ?ha (VRef 54) (Some [''_override'' \<mapsto> sentinel]) = (None, ?ha)"
    by (simp add: h3_def P0_import_self Provider_setstate_arg_def)
  have "sync_container (Suc (Suc (Suc 0))) (VRef 71) (VRef 70) h3 = (None, ?ha)"
    by (simp add: f t1 i1 g1 s1 t2 i2 d2 f2 t3 i3 g3 s3 del: dataclasses_fields.simps
        getattr_or_None.simps isinstance_Provider.simps is_dataclass.simps
        call_getstate.simps call_setstate.simps)
  then show ?thesis by (simp only: numeral_3_eq_3)
qed

lemma h3_not_nested_51: "\<not> nested_default h3 51"
  unfolding nested_default_def h3_def nested_fields_def sub_fields_def
  by (auto split: if_splits option.splits)

lemma h3_not_nested_52: "\<not> nested_default h3 52"
  unfolding nested_default_def h3_def nested_fields_def sub_fields_def
  by (auto split: if_splits option.splits)

text \<open>
  An attribute of \<open>from_\<close> that is not a Provider still has a \<^verbatim>\<open>__getstate__\<close>: an
  object with an instance dictionary hands that dictionary to the default's
  \<^verbatim>\<open>__setstate__\<close>, and a value without one hands over \<^verbatim>\<open>None\<close>, on which
  \<^verbatim>\<open>__setstate__\<close> raises before it assigns anything.
\<close>

lemma sync_container_non_provider_attribute:
  "sync_container 2 (VRef 91) (VRef 90) h4 = (None, h4(81 \<mapsto> ProviderObj P42))
   \<and> sync_container 2 (VRef 92) (VRef 90) h4
       = (Some (TypeError ''NoneType object is not subscriptable''), h4(81 \<mapsto> ProviderObj P0))"
proof -
  have i: "Provider_setstate P0 [''_override'' \<mapsto> VInt 42] = (None, P42)"
    by (simp add: Provider_setstate_def P42_def P0_def Provider_set_def Provider_init_def
        Provider_class_def ProviderMeta_new_def setattr_def)
  have n: "setstate_None P0
      = (Some (TypeError ''NoneType object is not subscriptable''), P0)"
    by (simp add: setstate_None_def P0_def Provider_init_def Provider_class_def
        ProviderMeta_new_def)
  have "sync_container (Suc (Suc 0)) (VRef 91) (VRef 90) h4 = (None, h4(81 \<mapsto> ProviderObj P42))"
    by (simp add: h4_def Provider_setstate_arg_def i)
  moreover have "sync_container (Suc (Suc 0)) (VRef 92) (VRef 90) h4
       = (Some (TypeError ''NoneType object is not subscriptable''), h4(81 \<mapsto> ProviderObj P0))"
    by (simp add: h4_def Provider_setstate_arg_def n)
  ultimately show ?thesis by (simp only: numeral_2_eq_2)
qed

text \<open>
  C2, as stated: \<^verbatim>\<open>sync_container\<close> reads the state of the declaration's type-level
  default Provider, writes it onto the live instance's Provider, and never mutates the
  declaration's defaults. It is refuted on the store \<open>h2\<close> with \<open>from_\<close> the instance at 31
  and \<open>to_\<close> the instance at 30: the call succeeds; the type-level default (address 21, no
  override before, \<open>get()\<close> failing) now has the state of the \<open>from_\<close> instance's Provider
  (override 7); and the Providers of both instances (22 and 23) are as they were.
\<close>

theorem sync_container_direction_counterexample:
  "h2 21 = Some (ProviderObj P0) \<and> Provider_get P0 = Inl NotImplementedError
   \<and> h2 22 = Some (ProviderObj P7) \<and> h2 23 = Some (ProviderObj P5)
   \<and> fst (sync_container 2 (VRef 31) (VRef 30) h2) = None
   \<and> snd (sync_container 2 (VRef 31) (VRef 30) h2) 21 = Some (ProviderObj P7)
   \<and> Provider_get P7 = Inr (VInt 7)
   \<and> snd (sync_container 2 (VRef 31) (VRef 30) h2) 22 = Some (ProviderObj P7)
   \<and> snd (sync_container 2 (VRef 31) (VRef 30) h2) 23 = Some (ProviderObj P5)"
  by (simp add: sync_h2)
     (simp add: h2_def P0_def P7_def Provider_get_def Provider_set_def Provider_init_def
      getattr_def setattr_def base_provide_def sentinel_def)

text \<open>
  C2, amended: \<^verbatim>\<open>sync_container(from_, to_)\<close> is asymmetric in the direction from the
  instance \<open>from_\<close> to the declaration of \<open>to_\<close>.

  First, for every call, whatever the arguments, the nesting and the outcome (a raised
  exception included): every object of the store is after the call what it was before,
  except that Providers which are type-level defaults of a declaration may have new
  values in their state fields.

  Second, for a call on two containers that returns without raising, and a field \<open>name\<close>
  of the declaration of \<open>to_\<close> (whose field names are distinct) such that: the field's
  type-level default is a Provider \<open>Q\<close>, the default of that field only; the attribute
  \<open>name\<close> of \<open>from_\<close> is a Provider \<open>P\<close>, which is \<open>Q\<close> itself or not the default of any field
  of the declaration; and, if the declaration has a nested composite field, neither \<open>Q\<close>
  nor \<open>P\<close> is a type-level default of the declaration of a container held as an attribute
  of a container. Then after the call the default \<open>Q\<close> has \<open>P\<close>'s values in all of \<open>Q\<close>'s
  state fields and is otherwise as before, and \<open>P\<close>, when it is another object than \<open>Q\<close>,
  is as before.

  Which side a recursive call for a nested composite reads and which it writes is not
  part of the statement beyond the first part.
\<close>

theorem sync_container_writes_declaration_defaults:
  "(sync_container n from_c to_c h = (r, h') \<longrightarrow> defaults_written h h')
   \<and> (h to = Some (DataObj fs d) \<and> h fr = Some (DataObj ffs fd)
       \<and> distinct (map fst fs)
       \<and> sync_container (Suc m) (VRef fr) (VRef to) h = (None, h'')
       \<and> (name, VRef q) \<in> set fs \<and> (\<forall>nm. (nm, VRef q) \<in> set fs \<longrightarrow> nm = name)
       \<and> (has_nested h fs \<longrightarrow> \<not> nested_default h q)
       \<and> h q = Some (ProviderObj Q)
       \<and> getattr_or_None h (VRef fr) name = VRef p \<and> h p = Some (ProviderObj P)
       \<and> (p = q \<or> ((\<forall>nm. (nm, VRef p) \<notin> set fs)
                    \<and> (has_nested h fs \<longrightarrow> \<not> nested_default h p)))
      \<longrightarrow> (\<exists>Q'. h'' q = Some (ProviderObj Q') \<and> only_state_differs Q Q'
              \<and> (\<forall>f\<in>set (STATE_FIELDS Q). attrs Q' f = attrs P f))
          \<and> (p \<noteq> q \<longrightarrow> h'' p = h p))"
proof -
  have g1: "sync_container n from_c to_c h = (r, h') \<longrightarrow> defaults_written h h'"
    using sync_container_written by blast
  have g2: "(\<exists>Q'. h'' q = Some (ProviderObj Q') \<and> only_state_differs Q Q'
              \<and> (\<forall>f\<in>set (STATE_FIELDS Q). attrs Q' f = attrs P f))
          \<and> (p \<noteq> q \<longrightarrow> h'' p = h p)"
    if a: "h to = Some (DataObj fs d) \<and> h fr = Some (DataObj ffs fd)
       \<and> distinct (map fst fs)
       \<and> sync_container (Suc m) (VRef fr) (VRef to) h = (None, h'')
       \<and> (name, VRef q) \<in> set fs \<and> (\<forall>nm. (nm, VRef q) \<in> set fs \<longrightarrow> nm = name)
       \<and> (has_nested h fs \<longrightarrow> \<not> nested_default h q)
       \<and> h q = Some (ProviderObj Q)
       \<and> getattr_or_None h (VRef fr) name = VRef p \<and> h p = Some (ProviderObj P)
       \<and> (p = q \<or> ((\<forall>nm. (nm, VRef p) \<notin> set fs)
                    \<and> (has_nested h fs \<longrightarrow> \<not> nested_default h p)))"
  proof -
    from a have "dataclasses_fields h (VRef to) = Inr fs" by simp
    with a have sf: "sync_fields m (VRef fr) fs h = (None, h'')"
      by (simp del: dataclasses_fields.simps getattr_or_None.simps)
    from a have frd: "h fr = Some (DataObj ffs fd)" by blast
    from a have dd: "\<forall>nm a. (nm, VRef a) \<in> set fs \<longrightarrow> decl_default h a"
      unfolding decl_default_def by blast
    from a have pp: "p = q \<or> (\<not> field_default fs p
          \<and> (has_nested h fs \<longrightarrow> \<not> nested_default h p))"
      unfolding field_default_def by blast
    from a have c1: "\<exists>Q'. h'' q = Some (ProviderObj Q') \<and> only_state_differs Q Q'
              \<and> (\<forall>f\<in>set (STATE_FIELDS Q). attrs Q' f = attrs P f)"
      by (intro sync_fields_target [OF sf frd dd _ _ _ _ _ _ _ pp]) blast+
    have c2: "p \<noteq> q \<longrightarrow> h'' p = h p"
    proof (intro impI, rule ccontr)
      assume pq: "p \<noteq> q" and ne: "h'' p \<noteq> h p"
      from sync_fields_frame [OF sf frd dd ne] pp pq show False by blast
    qed
    from c1 c2 show ?thesis by blast
  qed
  from g1 g2 show ?thesis by blast
qed

theorem sync_container_writes_declaration_defaults_witness:
  "defaults_written h2 (h2(21 \<mapsto> ProviderObj P7))
   \<and> (\<exists>Q'. (h2(21 \<mapsto> ProviderObj P7)) 21 = Some (ProviderObj Q') \<and> only_state_differs P0 Q'
         \<and> (\<forall>f\<in>set (STATE_FIELDS P0). attrs Q' f = attrs P7 f))
   \<and> (h2(21 \<mapsto> ProviderObj P7)) 22 = h2 22
   \<and> has_nested h3 nested_fields
   \<and> defaults_written h3 (h3(51 \<mapsto> ProviderObj P7))
   \<and> (\<exists>Q'. (h3(51 \<mapsto> ProviderObj P7)) 51 = Some (ProviderObj Q') \<and> only_state_differs P0 Q'
         \<and> (\<forall>f\<in>set (STATE_FIELDS P0). attrs Q' f = attrs P7 f))
   \<and> (h3(51 \<mapsto> ProviderObj P7)) 52 = h3 52"
proof -
  note t = sync_container_writes_declaration_defaults [of 2 "VRef 31" "VRef 30" h2 None
      "h2(21 \<mapsto> ProviderObj P7)" 30 decl_fields "[''p'' \<mapsto> VRef 23]" 31 decl_fields
      "[''p'' \<mapsto> VRef 22]" 1 "h2(21 \<mapsto> ProviderObj P7)" "''p''" 21 P0 22 P7]
  have s1: "sync_container (Suc 1) (VRef 31) (VRef 30) h2 = (None, h2(21 \<mapsto> ProviderObj P7))"
    using sync_h2 by (simp only: Suc_1)
  have flat: "\<not> has_nested h2 decl_fields"
    by (simp add: has_nested_def h2_def decl_fields_def)
  have hyp: "h2 30 = Some (DataObj decl_fields [''p'' \<mapsto> VRef 23])
       \<and> h2 31 = Some (DataObj decl_fields [''p'' \<mapsto> VRef 22])
       \<and> distinct (map fst decl_fields)
       \<and> (''p'', VRef 21) \<in> set decl_fields
       \<and> (\<forall>nm. (nm, VRef 21) \<in> set decl_fields \<longrightarrow> nm = ''p'')
       \<and> h2 21 = Some (ProviderObj P0)
       \<and> getattr_or_None h2 (VRef 31) ''p'' = VRef 22 \<and> h2 22 = Some (ProviderObj P7)
       \<and> (\<forall>nm. (nm, VRef 22) \<notin> set decl_fields)"
    by (simp add: h2_def decl_fields_def)
  have ne: "(22::nat) \<noteq> 21" by simp
  from t sync_h2 have c1: "defaults_written h2 (h2(21 \<mapsto> ProviderObj P7))" by blast
  from t s1 hyp flat ne
  have c2: "(\<exists>Q'. (h2(21 \<mapsto> ProviderObj P7)) 21 = Some (ProviderObj Q') \<and> only_state_differs P0 Q'
         \<and> (\<forall>f\<in>set (STATE_FIELDS P0). attrs Q' f = attrs P7 f))
        \<and> (h2(21 \<mapsto> ProviderObj P7)) 22 = h2 22" by blast
  note u = sync_container_writes_declaration_defaults [of 3 "VRef 71" "VRef 70" h3 None
      "h3(51 \<mapsto> ProviderObj P7)" 70 nested_fields "[''p'' \<mapsto> VRef 53, ''sub'' \<mapsto> VRef 60]"
      71 nested_fields "[''p'' \<mapsto> VRef 52, ''sub'' \<mapsto> VRef 61]" 2
      "h3(51 \<mapsto> ProviderObj P7)" "''p''" 51 P0 52 P7]
  have s3: "sync_container (Suc 2) (VRef 71) (VRef 70) h3 = (None, h3(51 \<mapsto> ProviderObj P7))"
  proof -
    have e: "Suc 2 = 3" by simp
    from sync_h3 show ?thesis unfolding e .
  qed
  have hn: "has_nested h3 nested_fields"
    by (simp add: has_nested_def h3_def nested_fields_def)
  have hyp3: "h3 70 = Some (DataObj nested_fields [''p'' \<mapsto> VRef 53, ''sub'' \<mapsto> VRef 60])
       \<and> h3 71 = Some (DataObj nested_fields [''p'' \<mapsto> VRef 52, ''sub'' \<mapsto> VRef 61])
       \<and> distinct (map fst nested_fields)
       \<and> (''p'', VRef 51) \<in> set nested_fields
       \<and> (\<forall>nm. (nm, VRef 51) \<in> set nested_fields \<longrightarrow> nm = ''p'')
       \<and> h3 51 = Some (ProviderObj P0)
       \<and> getattr_or_None h3 (VRef 71) ''p'' = VRef 52 \<and> h3 52 = Some (ProviderObj P7)
       \<and> (\<forall>nm. (nm, VRef 52) \<notin> set nested_fields)"
    by (simp add: h3_def nested_fields_def)
  have ne3: "(52::nat) \<noteq> 51" by simp
  from u sync_h3 have c3: "defaults_written h3 (h3(51 \<mapsto> ProviderObj P7))" by blast
  from u s3 hyp3 h3_not_nested_51 h3_not_nested_52 ne3
  have c4: "(\<exists>Q'. (h3(51 \<mapsto> ProviderObj P7)) 51 = Some (ProviderObj Q') \<and> only_state_differs P0 Q'
         \<and> (\<forall>f\<in>set (STATE_FIELDS P0). attrs Q' f = attrs P7 f))
        \<and> (h3(51 \<mapsto> ProviderObj P7)) 52 = h3 52" by blast
  from c1 c2 hn c3 c4 show ?thesis by blast
qed

end
